theory Spec2Isabelle
  imports Main "HOL-Library.Word" "HOL-Library.Char_ord" "HOL-Library.List_Lexorder"
begin

section \<open>internal/logger/logger.go\<close>

text \<open>
  Every log line of the program is \<^verbatim>\<open>fmt.Sprintf\<close> of a fixed (Korean) template with the
  job identifier and a few values. The templates are kept apart by a constructor each, with
  the arguments of the \<^verbatim>\<open>Sprintf\<close> call as the constructor's arguments, in the order of
  their first use in scheduler.go.
\<close>

datatype message =
    AlreadyRunning string                \<comment> \<open>line 53: duplicate start, request ignored\<close>
  | Stopped string                       \<comment> \<open>lines 77 and 140: scheduler stopped\<close>
  | NotRunning string                    \<comment> \<open>line 79: present but not running\<close>
  | NotFound string                      \<comment> \<open>line 82: no such scheduler id\<close>
  | StartRequested string                \<comment> \<open>line 88\<close>
  | Settings string string "64 word" string string  \<comment> \<open>line 89\<close>
  | StartTimeParseError string string    \<comment> \<open>line 95\<close>
  | WaitingForStart string int           \<comment> \<open>line 106, with the wait duration\<close>
  | StoppedBeforeStart string            \<comment> \<open>line 112\<close>
  | InvalidRepeatUnit string             \<comment> \<open>line 125\<close>
  | NowRunning string                    \<comment> \<open>line 133\<close>
  | CallStart string string string       \<comment> \<open>line 148\<close>
  | RequestCreateError string string     \<comment> \<open>lines 167 and 184\<close>
  | URLParseError string string          \<comment> \<open>line 174\<close>
  | CallError string string              \<comment> \<open>line 191\<close>
  | BodyReadError string string          \<comment> \<open>line 198\<close>
  | CallStatus string int                \<comment> \<open>line 202, with the status code\<close>
  | ResponseBody string string           \<comment> \<open>line 203\<close>
  | AutoStopOn200 string                 \<comment> \<open>line 206\<close>
  | Other string                         \<comment> \<open>any other text a caller of AddLog passes\<close>

record LogEntry =
  Time :: string
  Message :: message

text \<open>
  \<^verbatim>\<open>AddLog\<close>: the entry is stamped with the clock reading \<open>t\<close> (\<^verbatim>\<open>time.Now()\<close>
  formatted as 15:04:05), appended, and the head is dropped once the list is longer than 100.
  The package variable \<^verbatim>\<open>logs\<close> is the last argument and the result.
\<close>

definition AddLog :: "string \<Rightarrow> message \<Rightarrow> LogEntry list \<Rightarrow> LogEntry list" where
  "AddLog t m logs =
     (let entry = \<lparr>Time = t, Message = m\<rparr>;
          logs1 = logs @ [entry]
      in if length logs1 > 100 then tl logs1 else logs1)"

definition GetLogs :: "LogEntry list \<Rightarrow> LogEntry list" where
  "GetLogs logs = logs"

text \<open>A sequence of \<^verbatim>\<open>AddLog\<close> calls, each with its clock reading and its message.\<close>

fun AddLogs :: "(string \<times> message) list \<Rightarrow> LogEntry list \<Rightarrow> LogEntry list" where
  "AddLogs [] logs = logs"
| "AddLogs (c # cs) logs = AddLogs cs (AddLog (fst c) (snd c) logs)"

definition entry_of :: "string \<times> message \<Rightarrow> LogEntry" where
  "entry_of c = \<lparr>Time = fst c, Message = snd c\<rparr>"

section \<open>Standard library: time, net/url, encoding/json, net/http\<close>

text \<open>
  The standard library is not part of the repository. What the scheduler uses of it is
  written out here: instants and durations are nanosecond counts, a duration is an
  \<^verbatim>\<open>int64\<close> whose multiplication wraps, \<^verbatim>\<open>Time.Sub\<close> saturates, and
  \<^verbatim>\<open>time.NewTicker\<close> panics on an interval that is not positive.
\<close>

type_synonym Duration = "64 word"

definition Second :: Duration where "Second = 1000000000"
definition Minute :: Duration where "Minute = 60 * Second"
definition Hour :: Duration where "Hour = 60 * Minute"

definition Time_Add :: "int \<Rightarrow> Duration \<Rightarrow> int" where
  "Time_Add t d = t + sint d"

definition Time_Before :: "int \<Rightarrow> int \<Rightarrow> bool" where
  "Time_Before t u = (t < u)"

definition Time_Sub :: "int \<Rightarrow> int \<Rightarrow> int" where
  "Time_Sub t u =
     (let d = t - u
      in if d > 2 ^ 63 - 1 then 2 ^ 63 - 1 else if d < - (2 ^ 63) then - (2 ^ 63) else d)"

datatype panic =
    NonPositiveTickerInterval   \<comment> \<open>\<^verbatim>\<open>time.NewTicker\<close> with \<open>d \<le> 0\<close>\<close>
  | CloseOfClosedChannel        \<comment> \<open>\<^verbatim>\<open>close\<close> of a channel that is closed already\<close>
  | NilPointerDereference       \<comment> \<open>a pointer that refers to no object\<close>

definition NewTicker :: "Duration \<Rightarrow> panic + Duration" where
  "NewTicker d = (if sint d \<le> 0 then Inl NonPositiveTickerInterval else Inr d)"

text \<open>
  \<^verbatim>\<open>strings.ToUpper\<close>, on the ASCII letters. (The library also maps letters
  outside ASCII; a method name is compared with the ASCII word POST.)
\<close>

definition upper_char :: "char \<Rightarrow> char" where
  "upper_char c =
     (if CHR ''a'' \<le> c \<and> c \<le> CHR ''z'' then char_of (of_char c - (32::nat)) else c)"

definition ToUpper :: "string \<Rightarrow> string" where
  "ToUpper s = map upper_char s"

text \<open>
  \<^verbatim>\<open>url.QueryEscape\<close>: letters, digits and \<^verbatim>\<open>-_.~\<close> stay, a space becomes
  \<^verbatim>\<open>+\<close>, every other byte becomes \<^verbatim>\<open>%XX\<close> in upper-case hexadecimal.
\<close>

definition shouldEscape :: "char \<Rightarrow> bool" where
  "shouldEscape c =
     (if (CHR ''a'' \<le> c \<and> c \<le> CHR ''z'') \<or> (CHR ''A'' \<le> c \<and> c \<le> CHR ''Z'')
         \<or> (CHR ''0'' \<le> c \<and> c \<le> CHR ''9'') then False
      else if c \<in> set ''-_.~'' then False
      else True)"

definition upperhex :: "nat \<Rightarrow> char" where
  "upperhex n = ''0123456789ABCDEF'' ! (n mod 16)"

fun QueryEscape :: "string \<Rightarrow> string" where
  "QueryEscape [] = []"
| "QueryEscape (c # cs) =
     (if c = CHR '' '' then CHR ''+'' # QueryEscape cs
      else if shouldEscape c
        then CHR ''%'' # upperhex (of_char c div 16) # upperhex (of_char c mod 16)
               # QueryEscape cs
      else c # QueryEscape cs)"

text \<open>
  \<^verbatim>\<open>url.Values\<close> is a map from a key to the list of its values; it is kept as an
  association list with one pair for each key. \<^verbatim>\<open>Add\<close> appends to the key's list,
  \<^verbatim>\<open>Encode\<close> writes \<^verbatim>\<open>key=value\<close> pairs joined by \<^verbatim>\<open>&\<close>, the keys in sorted order.
\<close>

type_synonym Values = "(string \<times> string list) list"

fun Values_Add :: "string \<Rightarrow> string \<Rightarrow> Values \<Rightarrow> Values" where
  "Values_Add k v [] = [(k, [v])]"
| "Values_Add k v (kv # r) =
     (if fst kv = k then (k, snd kv @ [v]) # r else kv # Values_Add k v r)"

fun join_amp :: "string list \<Rightarrow> string" where
  "join_amp [] = []"
| "join_amp [p] = p"
| "join_amp (p # q # r) = p @ ''&'' @ join_amp (q # r)"

definition Values_Encode :: "Values \<Rightarrow> string" where
  "Values_Encode v =
     join_amp (concat (map (\<lambda>kv. map (\<lambda>x. QueryEscape (fst kv) @ ''='' @ QueryEscape x) (snd kv))
                          (sort_key fst v)))"

text \<open>
  A parsed \<^verbatim>\<open>url.URL\<close>, as far as \<^verbatim>\<open>String\<close> tells its parts apart: what is written
  before the query (scheme, authority and path), the query, and the fragment.
\<close>

record URL =
  Location :: string
  ForceQuery :: bool
  RawQuery :: string
  EscapedFragment :: string

definition URL_String :: "URL \<Rightarrow> string" where
  "URL_String u =
     Location u
     @ (if ForceQuery u \<or> RawQuery u \<noteq> [] then ''?'' @ RawQuery u else [])
     @ (if EscapedFragment u \<noteq> [] then ''#'' @ EscapedFragment u else [])"

record Request =
  Method :: string
  RequestURL :: string
  Body :: "string option"
  ContentType :: "string option"

text \<open>What \<^verbatim>\<open>client.Do\<close> and \<^verbatim>\<open>io.ReadAll\<close> give back for one request.\<close>

datatype reply =
    TransportFailure string      \<comment> \<open>\<^verbatim>\<open>client.Do\<close> returns an error (timeout, refused, ...)\<close>
  | UnreadableBody int string    \<comment> \<open>a response with this status whose body cannot be read\<close>
  | Reply int string             \<comment> \<open>status code and body\<close>

text \<open>
  The answers of the library during one dispatch. \<open>unmarshal\<close> is what
  \<^verbatim>\<open>json.Unmarshal\<close> leaves in the \<^verbatim>\<open>map[string]string\<close> (its entries, in the order
  \<^verbatim>\<open>range\<close> visits them) together with the error it returns; a syntax error leaves the map
  nil, a value of the wrong type is skipped while the other entries are stored.
  \<open>url_Parse\<close> is the result of \<^verbatim>\<open>url.Parse\<close> on the configured URL,
  \<open>NewRequest_error\<close> the error of \<^verbatim>\<open>http.NewRequest\<close> if any.
\<close>

record dispatch =
  unmarshal :: "(string \<times> string) list \<times> string option"
  url_Parse :: "string + URL"
  NewRequest_error :: "string option"
  client_Do :: reply

section \<open>internal/scheduler/scheduler.go\<close>

record SchedulerConfig =
  StartTime :: string
  RepeatValue :: "64 word"
  RepeatUnit :: string
  APIURL :: string
  HTTPMethod :: string
  Payload :: string

datatype chan = Open | Closed

record Scheduler =
  id' :: string
  stopChan :: chan
  running :: bool
  config :: SchedulerConfig

text \<open>
  Where the goroutine \<^verbatim>\<open>go s.run()\<close> of a scheduler stands: not yet started, blocked in
  the first \<^verbatim>\<open>select\<close> (with the duration of its timer), blocked in the \<^verbatim>\<open>select\<close> of
  the ticker loop, or returned.
\<close>

datatype phase = Pending | Waiting int | Running | Terminated

text \<open>
  The state of the process. \<^verbatim>\<open>schedulers\<close> maps an identifier to a pointer; a pointer is
  an index into \<open>heap\<close>, and \<open>goroutines\<close> holds, at the same index, the state of the
  goroutine started for that object. \<open>logs\<close> is the logger's list, \<open>clock\<close> the current
  reading of the wall clock as the logger formats it, and \<open>sent\<close> the requests handed to
  \<^verbatim>\<open>client.Do\<close> so far, each with the pointer of the scheduler that sent it.
\<close>

record world =
  schedulers :: "string \<rightharpoonup> nat"
  heap :: "Scheduler list"
  goroutines :: "phase list"
  logs :: "LogEntry list"
  clock :: string
  sent :: "(nat \<times> Request) list"

definition logger_AddLog :: "message \<Rightarrow> world \<Rightarrow> world" where
  "logger_AddLog m w = w\<lparr>logs := AddLog (clock w) m (logs w)\<rparr>"

definition Init :: "string \<Rightarrow> world" where
  "Init t = \<lparr>schedulers = Map.empty, heap = [], goroutines = [], logs = [], clock = t, sent = []\<rparr>"

definition StartScheduler :: "string \<Rightarrow> SchedulerConfig \<Rightarrow> world \<Rightarrow> world" where
  "StartScheduler i c w =
     (case schedulers w i of
        Some _ \<Rightarrow> logger_AddLog (AlreadyRunning i) w
      | None \<Rightarrow>
          let s = \<lparr>id' = i, stopChan = Open, running = True, config = c\<rparr>;
              p = length (heap w)
          in w\<lparr>heap := heap w @ [s],
               schedulers := (schedulers w)(i \<mapsto> p),
               goroutines := goroutines w @ [Pending]\<rparr>)"

definition StopScheduler :: "string \<Rightarrow> world \<Rightarrow> panic + world" where
  "StopScheduler i w =
     (case schedulers w i of
        Some p \<Rightarrow>
          if p < length (heap w) then
            let s = heap w ! p in
            if running s then
              (case stopChan s of
                 Closed \<Rightarrow> Inl CloseOfClosedChannel
               | Open \<Rightarrow>
                   Inr (logger_AddLog (Stopped i)
                          (w\<lparr>heap := (heap w)[p := s\<lparr>stopChan := Closed, running := False\<rparr>],
                             schedulers := (schedulers w)(i := None)\<rparr>)))
            else Inr (logger_AddLog (NotRunning i) w)
          else Inl NilPointerDereference
      | None \<Rightarrow> Inr (logger_AddLog (NotFound i) w))"

definition set_phase :: "nat \<Rightarrow> phase \<Rightarrow> world \<Rightarrow> world" where
  "set_phase p ph w = w\<lparr>goroutines := (goroutines w)[p := ph]\<rparr>"

text \<open>
  \<^verbatim>\<open>run\<close>, lines 88 to 106, for the scheduler at pointer \<open>p\<close>: \<open>now\<close> is the reading of
  \<^verbatim>\<open>time.Now()\<close> in line 100 and \<open>parsed\<close> the result of \<^verbatim>\<open>time.ParseInLocation\<close> on
  today's date and the configured time of day.
\<close>

definition run_begin :: "nat \<Rightarrow> int \<Rightarrow> string + int \<Rightarrow> world \<Rightarrow> panic + world" where
  "run_begin p now parsed w =
     (let s = heap w ! p;
          c = config s;
          w1 = logger_AddLog (StartRequested (id' s)) w;
          w2 = logger_AddLog
                 (Settings (id' s) (StartTime c) (RepeatValue c) (RepeatUnit c) (APIURL c)) w1
      in case parsed of
           Inl err \<Rightarrow>
             (case StopScheduler (id' s) (logger_AddLog (StartTimeParseError (id' s) err) w2) of
                Inl e \<Rightarrow> Inl e
              | Inr w3 \<Rightarrow> Inr (set_phase p Terminated w3))
         | Inr startTime \<Rightarrow>
             let startTime1 =
                   (if Time_Before startTime now then Time_Add startTime (24 * Hour)
                    else startTime);
                 waitDuration = Time_Sub startTime1 now;
                 w3 = logger_AddLog (WaitingForStart (id' s) waitDuration) w2
             in Inr (set_phase p (Waiting waitDuration) w3))"

text \<open>\<^verbatim>\<open>run\<close>, lines 116 to 133: the timer of the first \<^verbatim>\<open>select\<close> has fired.\<close>

definition repeatInterval :: "SchedulerConfig \<Rightarrow> Duration option" where
  "repeatInterval c =
     (if RepeatUnit c = ''h'' then Some (RepeatValue c * Hour)
      else if RepeatUnit c = ''m'' then Some (RepeatValue c * Minute)
      else if RepeatUnit c = ''s'' then Some (RepeatValue c * Second)
      else None)"

definition run_start :: "nat \<Rightarrow> world \<Rightarrow> panic + world" where
  "run_start p w =
     (let s = heap w ! p
      in case repeatInterval (config s) of
           None \<Rightarrow>
             (case StopScheduler (id' s) (logger_AddLog (InvalidRepeatUnit (id' s)) w) of
                Inl e \<Rightarrow> Inl e
              | Inr w1 \<Rightarrow> Inr (set_phase p Terminated w1))
         | Some d \<Rightarrow>
             (case NewTicker d of
                Inl e \<Rightarrow> Inl e
              | Inr _ \<Rightarrow> Inr (set_phase p Running (logger_AddLog (NowRunning (id' s)) w))))"

text \<open>
  \<^verbatim>\<open>run\<close>, lines 111 to 113 and 139 to 141: a \<^verbatim>\<open>select\<close> receives from the closed
  \<^verbatim>\<open>stopChan\<close>.
\<close>

definition run_stopped :: "nat \<Rightarrow> world \<Rightarrow> world" where
  "run_stopped p w =
     (let s = heap w ! p
      in case goroutines w ! p of
           Waiting d \<Rightarrow> set_phase p Terminated (logger_AddLog (StoppedBeforeStart (id' s)) w)
         | Running \<Rightarrow> set_phase p Terminated (logger_AddLog (Stopped (id' s)) w)
         | _ \<Rightarrow> w)"

text \<open>
  \<^verbatim>\<open>callAPI\<close>, lines 157 to 187, for the scheduler with identifier \<open>i\<close> and
  configuration \<open>c\<close>: the request, or the line that is logged when there is none. The
  error of \<^verbatim>\<open>json.Unmarshal\<close> is dropped and the map is used as it is.
\<close>

definition callAPI_request :: "string \<Rightarrow> SchedulerConfig \<Rightarrow> dispatch \<Rightarrow> message + Request" where
  "callAPI_request i c env =
     (let payload = fst (unmarshal env)
      in if ToUpper (HTTPMethod c) = ''POST'' then
           let form = foldl (\<lambda>f kv. Values_Add (fst kv) (snd kv) f) [] payload
           in case NewRequest_error env of
                Some err \<Rightarrow> Inl (RequestCreateError i err)
              | None \<Rightarrow>
                  Inr \<lparr>Method = ''POST'', RequestURL = APIURL c,
                       Body = Some (Values_Encode form),
                       ContentType = Some ''application/x-www-form-urlencoded''\<rparr>
         else
           case url_Parse env of
             Inl err \<Rightarrow> Inl (URLParseError i err)
           | Inr baseURL \<Rightarrow>
               let params = foldl (\<lambda>f kv. Values_Add (fst kv) (snd kv) f) [] payload;
                   baseURL1 = baseURL\<lparr>RawQuery := Values_Encode params\<rparr>
               in case NewRequest_error env of
                    Some err \<Rightarrow> Inl (RequestCreateError i err)
                  | None \<Rightarrow>
                      Inr \<lparr>Method = ''GET'', RequestURL = URL_String baseURL1, Body = None,
                           ContentType = None\<rparr>)"

text \<open>\<^verbatim>\<open>callAPI\<close>, lines 189 to 208: the request \<open>req\<close> is sent and the reply handled.\<close>

definition callAPI_send :: "nat \<Rightarrow> Request \<Rightarrow> dispatch \<Rightarrow> world \<Rightarrow> panic + world" where
  "callAPI_send p req env w =
     (let s = heap w ! p;
          w1 = w\<lparr>sent := sent w @ [(p, req)]\<rparr>
      in case client_Do env of
           TransportFailure err \<Rightarrow> Inr (logger_AddLog (CallError (id' s) err) w1)
         | UnreadableBody code err \<Rightarrow> Inr (logger_AddLog (BodyReadError (id' s) err) w1)
         | Reply code body \<Rightarrow>
             let w2 = logger_AddLog (CallStatus (id' s) code) w1;
                 w3 = logger_AddLog (ResponseBody (id' s) body) w2
             in if code = 200
                then StopScheduler (id' s) (logger_AddLog (AutoStopOn200 (id' s)) w3)
                else Inr w3)"

definition callAPI :: "nat \<Rightarrow> dispatch \<Rightarrow> world \<Rightarrow> panic + world" where
  "callAPI p env w =
     (let s = heap w ! p;
          c = config s;
          w1 = logger_AddLog (CallStart (id' s) (APIURL c) (HTTPMethod c)) w
      in case callAPI_request (id' s) c env of
           Inl m \<Rightarrow> Inr (logger_AddLog m w1)
         | Inr req \<Rightarrow> callAPI_send p req env w1)"

section \<open>The process as a transition system\<close>

text \<open>
  \<^verbatim>\<open>StartScheduler\<close> and \<^verbatim>\<open>StopScheduler\<close> hold the mutex from their first to their last
  statement, so each call is one step. A goroutine moves between its blocking points; which
  goroutine moves next, when a timer fires and what the library answers is the choice of
  the environment, given as an event. An event that cannot happen in a state leaves it
  unchanged. A \<^verbatim>\<open>select\<close> with two ready cases takes either, so a timer or a tick may be
  taken although \<^verbatim>\<open>stopChan\<close> is closed already.
\<close>

datatype event =
    Start string SchedulerConfig     \<comment> \<open>the handler calls \<^verbatim>\<open>StartScheduler\<close>\<close>
  | Stop string                      \<comment> \<open>the handler calls \<^verbatim>\<open>StopScheduler\<close>\<close>
  | Begin nat int "string + int"     \<comment> \<open>a new goroutine runs up to its first \<^verbatim>\<open>select\<close>\<close>
  | TimerFired nat                   \<comment> \<open>\<^verbatim>\<open>time.After\<close> delivers\<close>
  | Tick nat dispatch                \<comment> \<open>the ticker delivers: one \<^verbatim>\<open>callAPI\<close>\<close>
  | StopSeen nat                     \<comment> \<open>a \<^verbatim>\<open>select\<close> receives from \<^verbatim>\<open>stopChan\<close>\<close>
  | ClockReads string                \<comment> \<open>the wall clock moves on\<close>

definition live :: "nat \<Rightarrow> world \<Rightarrow> bool" where
  "live p w = (p < length (heap w) \<and> p < length (goroutines w))"

fun waiting :: "phase \<Rightarrow> bool" where
  "waiting (Waiting d) = True"
| "waiting ph = False"

fun step :: "event \<Rightarrow> world \<Rightarrow> panic + world" where
  "step (Start i c) w = Inr (StartScheduler i c w)"
| "step (Stop i) w = StopScheduler i w"
| "step (Begin p now parsed) w =
     (if live p w \<and> goroutines w ! p = Pending then run_begin p now parsed w else Inr w)"
| "step (TimerFired p) w =
     (if live p w \<and> waiting (goroutines w ! p) then run_start p w else Inr w)"
| "step (Tick p env) w =
     (if live p w \<and> goroutines w ! p = Running then callAPI p env w else Inr w)"
| "step (StopSeen p) w =
     (if live p w \<and> stopChan (heap w ! p) = Closed then Inr (run_stopped p w) else Inr w)"
| "step (ClockReads t) w = Inr (w\<lparr>clock := t\<rparr>)"

fun exec :: "event list \<Rightarrow> world \<Rightarrow> panic + world" where
  "exec [] w = Inr w"
| "exec (e # es) w = (case step e w of Inl x \<Rightarrow> Inl x | Inr w1 \<Rightarrow> exec es w1)"

section \<open>Invariants and examples\<close>

text \<open>
  The invariant of the registry. The two lists have one entry for each scheduler ever
  created. A registered pointer refers to an object that carries the identifier it is
  registered under, has its \<^verbatim>\<open>running\<close> flag set and its channel open, and whose goroutine
  has not returned; an object that is not registered under its identifier has its channel
  closed and its flag cleared.
\<close>

definition registry_ok :: "world \<Rightarrow> bool" where
  "registry_ok w \<longleftrightarrow>
     length (goroutines w) = length (heap w) \<and>
     (\<forall>i p. schedulers w i = Some p \<longrightarrow>
        p < length (heap w) \<and> id' (heap w ! p) = i \<and> running (heap w ! p) \<and>
        stopChan (heap w ! p) = Open \<and> goroutines w ! p \<noteq> Terminated) \<and>
     (\<forall>p < length (heap w). schedulers w (id' (heap w ! p)) \<noteq> Some p \<longrightarrow>
        stopChan (heap w ! p) = Closed \<and> \<not> running (heap w ! p))"

text \<open>
  Only a scheduler whose repeat unit is one of h, m and s stands in the ticker loop or has
  sent a request.
\<close>

definition units_ok :: "world \<Rightarrow> bool" where
  "units_ok w \<longleftrightarrow>
     (\<forall>p < length (heap w). goroutines w ! p = Running \<longrightarrow>
        repeatInterval (config (heap w ! p)) \<noteq> None) \<and>
     (\<forall>r \<in> set (sent w). fst r < length (heap w) \<and>
        repeatInterval (config (heap w ! fst r)) \<noteq> None)"

text \<open>
  The state after the branch of \<^verbatim>\<open>StopScheduler\<close> (lines 74 to 77) that closes the channel
  of the scheduler at \<open>p\<close>, clears its flag and deletes the identifier.
\<close>

definition removed :: "string \<Rightarrow> nat \<Rightarrow> world \<Rightarrow> world" where
  "removed i p w =
     logger_AddLog (Stopped i)
       (w\<lparr>heap := (heap w)[p := (heap w ! p)\<lparr>stopChan := Closed, running := False\<rparr>],
          schedulers := (schedulers w)(i := None)\<rparr>)"

text \<open>
  The state after lines 88 to 106 of \<^verbatim>\<open>run\<close> when the start time has been parsed, with
  the 24 hours written as nanoseconds.
\<close>

definition begun :: "nat \<Rightarrow> int \<Rightarrow> int \<Rightarrow> world \<Rightarrow> world" where
  "begun p now startTime w =
     (let s = heap w ! p;
          d = Time_Sub (if startTime < now then startTime + 86400000000000 else startTime) now
      in set_phase p (Waiting d)
           (logger_AddLog (WaitingForStart (id' s) d)
             (logger_AddLog (Settings (id' s) (StartTime (config s)) (RepeatValue (config s))
                               (RepeatUnit (config s)) (APIURL (config s)))
               (logger_AddLog (StartRequested (id' s)) w))))"

text \<open>
  Two states with the same objects as far as the immutable fields go, and a later state
  that has kept every object and every returned goroutine of an earlier one.
\<close>

definition same_objects :: "world \<Rightarrow> world \<Rightarrow> bool" where
  "same_objects w w' \<longleftrightarrow>
     length (heap w') = length (heap w) \<and>
     (\<forall>q. config (heap w' ! q) = config (heap w ! q)) \<and>
     (\<forall>q. id' (heap w' ! q) = id' (heap w ! q))"

text \<open>\<open>extends w w'\<close>: \<open>w'\<close> comes after \<open>w\<close>.\<close>

definition extends :: "world \<Rightarrow> world \<Rightarrow> bool" where
  "extends w w' \<longleftrightarrow>
     length (heap w) \<le> length (heap w') \<and>
     (\<forall>q < length (heap w).
        config (heap w' ! q) = config (heap w ! q) \<and> id' (heap w' ! q) = id' (heap w ! q) \<and>
        (goroutines w ! q = Terminated \<longrightarrow> goroutines w' ! q = Terminated))"

text \<open>The pointers of the schedulers that carry identifier \<open>i\<close> and have their flag set.\<close>

definition running_under :: "string \<Rightarrow> world \<Rightarrow> nat list" where
  "running_under i w =
     filter (\<lambda>p. id' (heap w ! p) = i \<and> running (heap w ! p)) [0..<length (heap w)]"

text \<open>The requests sent in a run of the process, none if it has panicked.\<close>

definition requests_sent :: "panic + world \<Rightarrow> Request list" where
  "requests_sent r = (case r of Inl x \<Rightarrow> [] | Inr w \<Rightarrow> map snd (sent w))"

text \<open>
  The configuration of the end-to-end example of the specification, and the answers of the
  library for it when the built-in echo server replies 200.
\<close>

definition example_config :: SchedulerConfig where
  "example_config =
     \<lparr>StartTime = ''09:00:00'', RepeatValue = 1, RepeatUnit = ''s'',
      APIURL = ''http://localhost:8080/fake-server'', HTTPMethod = ''GET'',
      Payload = ''{\"k\":\"v\"}''\<rparr>"

text \<open>The library's answers for \<open>example_config\<close>.\<close>

definition example_dispatch :: dispatch where
  "example_dispatch =
     \<lparr>unmarshal = ([(''k'', ''v'')], None),
      url_Parse = Inr \<lparr>Location = ''http://localhost:8080/fake-server'', ForceQuery = False,
                       RawQuery = [], EscapedFragment = []\<rparr>,
      NewRequest_error = None,
      client_Do = Reply 200 []\<rparr>"

text \<open>
  The payload \<^verbatim>\<open>{"a":"1","b":2}\<close> is valid JSON, but the number is no string:
  \<^verbatim>\<open>json.Unmarshal\<close> returns an \<^verbatim>\<open>UnmarshalTypeError\<close> after it has stored
  \<^verbatim>\<open>a\<close> and the zero value for \<^verbatim>\<open>b\<close>.
\<close>

definition partial_decode :: dispatch where
  "partial_decode =
     example_dispatch
       \<lparr>unmarshal := ([(''a'', ''1''), (''b'', [])],
                      Some ''json: cannot unmarshal number into Go value of type string'')\<rparr>"

text \<open>\<^verbatim>\<open>url.Parse\<close> rejects a URL that starts with a colon: it has no scheme.\<close>

definition parse_failure :: dispatch where
  "parse_failure =
     example_dispatch
       \<lparr>url_Parse := Inl ''parse \":8080/fake-server\": missing protocol scheme''\<rparr>"

section \<open>The log cap\<close>

lemma AddLog_drop:
  "length l \<le> 100 \<Longrightarrow>
   AddLog t m l = drop (length l + 1 - 100) (l @ [\<lparr>Time = t, Message = m\<rparr>])"
proof (cases "length l = 100")
  case True
  then have "length l + 1 - 100 = Suc 0" and "l \<noteq> []" by auto
  then show ?thesis using True by (simp add: AddLog_def Let_def drop_Suc)
next
  case False
  assume "length l \<le> 100"
  with False have "length l < 100" by simp
  then show ?thesis by (simp add: AddLog_def Let_def)
qed

lemma AddLog_length: "length l \<le> 100 \<Longrightarrow> length (AddLog t m l) \<le> 100"
  by (auto simp: AddLog_def Let_def)

lemma AddLogs_drop:
  "length l \<le> 100 \<Longrightarrow>
   AddLogs cs l = drop (length l + length cs - 100) (l @ map entry_of cs)"
proof (induction cs arbitrary: l)
  case Nil
  then show ?case by simp
next
  case (Cons c cs)
  let ?e = "\<lparr>Time = fst c, Message = snd c\<rparr>"
  let ?l1 = "AddLog (fst c) (snd c) l"
  have len: "length ?l1 \<le> 100"
    using Cons.prems by (rule AddLog_length)
  have step: "?l1 = drop (length l + 1 - 100) (l @ [?e])"
    using Cons.prems by (rule AddLog_drop)
  have l1: "length ?l1 = length l + 1 - (length l + 1 - 100)"
    by (subst step) simp
  have "AddLogs (c # cs) l = AddLogs cs ?l1"
    by simp
  also have "\<dots> = drop (length ?l1 + length cs - 100) (?l1 @ map entry_of cs)"
    using len by (rule Cons.IH)
  also have "\<dots> = drop (length l + length (c # cs) - 100) (l @ map entry_of (c # cs))"
  proof (cases "length l = 100")
    case True
    then have ne: "l \<noteq> []" by auto
    with True have "?l1 = tl l @ [?e]" "length ?l1 = 100"
      by (auto simp: AddLog_def Let_def)
    then show ?thesis using True
      by (cases l) (simp_all add: entry_of_def drop_Suc)
  next
    case False
    with Cons.prems have "length l < 100" by simp
    then show ?thesis by (simp add: AddLog_def Let_def entry_of_def)
  qed
  finally show ?case .
qed

text \<open>
  C3. Starting from the empty log, any sequence of \<^verbatim>\<open>AddLog\<close> calls leaves at most 100
  entries, namely the last 100 of the calls in the order they were made; after 150 calls
  these are exactly the calls 51 to 150.
\<close>

theorem log_cap:
  "length (AddLogs cs []) \<le> 100 \<and>
   AddLogs cs [] = drop (length cs - 100) (map entry_of cs) \<and>
   (length cs = 150 \<longrightarrow>
      length (AddLogs cs []) = 100 \<and> AddLogs cs [] = map entry_of (drop 50 cs))"
proof -
  have eq: "AddLogs cs [] = drop (length cs - 100) (map entry_of cs)"
    using AddLogs_drop [of "[]" cs] by simp
  show ?thesis
    by (auto simp: eq drop_map)
qed

theorem log_cap_witness:
  "length (map (\<lambda>i. ([], Other (replicate i CHR ''x''))) [0..<150]) = 150 \<and>
   length (AddLogs (map (\<lambda>i. ([], Other (replicate i CHR ''x''))) [0..<150]) []) = 100 \<and>
   AddLogs (map (\<lambda>i. ([], Other (replicate i CHR ''x''))) [0..<150]) [] =
     map entry_of (drop 50 (map (\<lambda>i. ([], Other (replicate i CHR ''x''))) [0..<150]))"
  using log_cap [of "map (\<lambda>i. ([], Other (replicate i CHR ''x''))) [0..<150]"]
  by (simp add: drop_map)

section \<open>The registry invariant is kept by every step\<close>

lemma logger_AddLog_fields [simp]:
  "schedulers (logger_AddLog m w) = schedulers w"
  "heap (logger_AddLog m w) = heap w"
  "goroutines (logger_AddLog m w) = goroutines w"
  "sent (logger_AddLog m w) = sent w"
  "clock (logger_AddLog m w) = clock w"
  by (simp_all add: logger_AddLog_def)

lemma set_phase_fields [simp]:
  "schedulers (set_phase p ph w) = schedulers w"
  "heap (set_phase p ph w) = heap w"
  "goroutines (set_phase p ph w) = (goroutines w)[p := ph]"
  "sent (set_phase p ph w) = sent w"
  "logs (set_phase p ph w) = logs w"
  "clock (set_phase p ph w) = clock w"
  by (simp_all add: set_phase_def)

lemma last_AddLog: "last (AddLog t m l) = \<lparr>Time = t, Message = m\<rparr>"
proof (cases "length l < 100")
  case True
  then show ?thesis by (simp add: AddLog_def Let_def)
next
  case False
  then have "l \<noteq> []" and "tl l @ [\<lparr>Time = t, Message = m\<rparr>] \<noteq> []" by auto
  with False show ?thesis by (simp add: AddLog_def Let_def)
qed

lemma AddLog_nonempty: "AddLog t m l \<noteq> []"
proof (cases "length l < 100")
  case True
  then show ?thesis by (simp add: AddLog_def Let_def)
next
  case False
  then have "l \<noteq> []" by auto
  with False show ?thesis by (simp add: AddLog_def Let_def)
qed

lemma last_logger_AddLog [simp]: "Message (last (logs (logger_AddLog m w))) = m"
  by (simp add: logger_AddLog_def last_AddLog)

lemma registry_ok_log [simp]: "registry_ok (logger_AddLog m w) = registry_ok w"
  by (simp add: registry_ok_def)

lemma units_ok_log [simp]: "units_ok (logger_AddLog m w) = units_ok w"
  by (simp add: units_ok_def)

lemma registry_ok_Init: "registry_ok (Init t)"
  by (simp add: registry_ok_def Init_def)

lemma units_ok_Init: "units_ok (Init t)"
  by (simp add: units_ok_def Init_def)

lemma registry_okD:
  assumes "registry_ok w" and "schedulers w i = Some p"
  shows "p < length (heap w)" and "id' (heap w ! p) = i" and "running (heap w ! p)"
    and "stopChan (heap w ! p) = Open" and "goroutines w ! p \<noteq> Terminated"
    and "p < length (goroutines w)"
proof -
  from assms have *: "p < length (heap w) \<and> id' (heap w ! p) = i \<and> running (heap w ! p) \<and>
        stopChan (heap w ! p) = Open \<and> goroutines w ! p \<noteq> Terminated"
    unfolding registry_ok_def by blast
  from assms(1) have len: "length (goroutines w) = length (heap w)"
    unfolding registry_ok_def by blast
  from * show "p < length (heap w)" by simp
  from * show "id' (heap w ! p) = i" by simp
  from * show "running (heap w ! p)" by simp
  from * show "stopChan (heap w ! p) = Open" by simp
  from * show "goroutines w ! p \<noteq> Terminated" by simp
  from * len show "p < length (goroutines w)" by simp
qed

lemma registry_ok_unregistered:
  assumes "registry_ok w" and "p < length (heap w)"
    and "schedulers w (id' (heap w ! p)) \<noteq> Some p"
  shows "stopChan (heap w ! p) = Closed" and "\<not> running (heap w ! p)"
proof -
  from assms have *: "stopChan (heap w ! p) = Closed \<and> \<not> running (heap w ! p)"
    unfolding registry_ok_def by blast
  from * show "stopChan (heap w ! p) = Closed" by simp
  from * show "\<not> running (heap w ! p)" by simp
qed

lemma registry_ok_length: "registry_ok w \<Longrightarrow> length (goroutines w) = length (heap w)"
  by (simp add: registry_ok_def)

lemma registry_ok_Start: "registry_ok w \<Longrightarrow> registry_ok (StartScheduler i c w)"
proof (cases "schedulers w i")
  case (Some p)
  assume "registry_ok w"
  with Some show ?thesis by (simp add: StartScheduler_def)
next
  case None
  assume ok: "registry_ok w"
  let ?s = "\<lparr>id' = i, stopChan = Open, running = True, config = c\<rparr>"
  let ?w = "w\<lparr>heap := heap w @ [?s], schedulers := (schedulers w)(i \<mapsto> length (heap w)),
              goroutines := goroutines w @ [Pending]\<rparr>"
  have len: "length (goroutines w) = length (heap w)"
    using ok by (rule registry_ok_length)
  have "registry_ok ?w"
    unfolding registry_ok_def
  proof (intro conjI allI impI)
    show "length (goroutines ?w) = length (heap ?w)" using len by simp
  next
    fix j q assume reg: "schedulers ?w j = Some q"
    show "q < length (heap ?w)" "id' (heap ?w ! q) = j" "running (heap ?w ! q)"
      "stopChan (heap ?w ! q) = Open" "goroutines ?w ! q \<noteq> Terminated"
      using reg registry_okD [OF ok, of j q] len
      by (auto simp: nth_append split: if_splits)
  next
    fix q assume q: "q < length (heap ?w)"
      and un: "schedulers ?w (id' (heap ?w ! q)) \<noteq> Some q"
    have "q < length (heap w)"
      using q un by (cases "q = length (heap w)") auto
    moreover have "schedulers w (id' (heap w ! q)) \<noteq> Some q"
      using un \<open>q < length (heap w)\<close> None by (auto simp: nth_append split: if_splits)
    ultimately show "stopChan (heap ?w ! q) = Closed" "\<not> running (heap ?w ! q)"
      using registry_ok_unregistered [OF ok, of q] by (simp_all add: nth_append)
  qed
  with None show ?thesis by (simp add: StartScheduler_def Let_def)
qed

lemma units_ok_Start:
  assumes ok: "registry_ok w" and u: "units_ok w"
  shows "units_ok (StartScheduler i c w)"
proof (cases "schedulers w i")
  case (Some p)
  with u show ?thesis by (simp add: StartScheduler_def)
next
  case None
  have len: "length (goroutines w) = length (heap w)"
    using ok by (rule registry_ok_length)
  from u have a: "\<And>p. p < length (heap w) \<Longrightarrow> goroutines w ! p = Running \<Longrightarrow>
        repeatInterval (config (heap w ! p)) \<noteq> None"
    and b: "\<And>r. r \<in> set (sent w) \<Longrightarrow> fst r < length (heap w) \<and>
        repeatInterval (config (heap w ! fst r)) \<noteq> None"
    unfolding units_ok_def by blast+
  show ?thesis
    unfolding units_ok_def
  proof (intro conjI allI impI ballI)
    fix p assume "p < length (heap (StartScheduler i c w))"
      and "goroutines (StartScheduler i c w) ! p = Running"
    then show "repeatInterval (config (heap (StartScheduler i c w) ! p)) \<noteq> None"
      using None len a [of p]
      by (cases "p < length (heap w)") (simp_all add: StartScheduler_def Let_def nth_append)
  next
    fix r assume "r \<in> set (sent (StartScheduler i c w))"
    then have "r \<in> set (sent w)" using None by (simp add: StartScheduler_def Let_def)
    from b [OF this] show "fst r < length (heap (StartScheduler i c w))"
      using None by (simp add: StartScheduler_def Let_def)
    from b [OF \<open>r \<in> set (sent w)\<close>]
    show "repeatInterval (config (heap (StartScheduler i c w) ! fst r)) \<noteq> None"
      using None by (simp add: StartScheduler_def Let_def nth_append)
  qed
qed

lemma StopScheduler_absent:
  "schedulers w i = None \<Longrightarrow> StopScheduler i w = Inr (logger_AddLog (NotFound i) w)"
  by (simp add: StopScheduler_def)

lemma StopScheduler_present:
  "registry_ok w \<Longrightarrow> schedulers w i = Some p \<Longrightarrow> StopScheduler i w = Inr (removed i p w)"
  by (simp add: StopScheduler_def registry_okD removed_def Let_def)

lemma heap_update_frame:
  "config ((h :: Scheduler list)[p := (h ! p)\<lparr>stopChan := x, running := y\<rparr>] ! q) = config (h ! q)"
  "id' (h[p := (h ! p)\<lparr>stopChan := x, running := y\<rparr>] ! q) = id' (h ! q)"
proof -
  have "config (h[p := (h ! p)\<lparr>stopChan := x, running := y\<rparr>] ! q) = config (h ! q)
      \<and> id' (h[p := (h ! p)\<lparr>stopChan := x, running := y\<rparr>] ! q) = id' (h ! q)"
  proof (cases "p < length h")
    case True
    then show ?thesis by (cases "p = q") simp_all
  next
    case False
    then have "length h \<le> p" by simp
    then show ?thesis by (simp only: list_update_beyond)
  qed
  then show "config (h[p := (h ! p)\<lparr>stopChan := x, running := y\<rparr>] ! q) = config (h ! q)"
    and "id' (h[p := (h ! p)\<lparr>stopChan := x, running := y\<rparr>] ! q) = id' (h ! q)"
    by simp_all
qed

lemma removed_fields [simp]:
  "schedulers (removed i p w) = (schedulers w)(i := None)"
  "goroutines (removed i p w) = goroutines w"
  "sent (removed i p w) = sent w"
  "length (heap (removed i p w)) = length (heap w)"
  "config (heap (removed i p w) ! q) = config (heap w ! q)"
  "id' (heap (removed i p w) ! q) = id' (heap w ! q)"
  by (simp_all add: removed_def heap_update_frame)

lemma removed_closed:
  "p < length (heap w) \<Longrightarrow> stopChan (heap (removed i p w) ! p) = Closed"
  "p < length (heap w) \<Longrightarrow> \<not> running (heap (removed i p w) ! p)"
  "q \<noteq> p \<Longrightarrow> heap (removed i p w) ! q = heap w ! q"
  by (simp_all add: removed_def)

lemma registry_ok_removed:
  assumes ok: "registry_ok w" and reg: "schedulers w i = Some p"
  shows "registry_ok (removed i p w)"
  unfolding registry_ok_def
proof (intro conjI allI impI)
  show "length (goroutines (removed i p w)) = length (heap (removed i p w))"
    using ok by (simp add: registry_ok_length)
next
  fix j q assume r: "schedulers (removed i p w) j = Some q"
  then have j: "j \<noteq> i" and rq: "schedulers w j = Some q" by (auto split: if_splits)
  from registry_okD(2) [OF ok reg] registry_okD(2) [OF ok rq] j have "q \<noteq> p" by auto
  then show "q < length (heap (removed i p w))" "id' (heap (removed i p w) ! q) = j"
    "running (heap (removed i p w) ! q)" "stopChan (heap (removed i p w) ! q) = Open"
    "goroutines (removed i p w) ! q \<noteq> Terminated"
    using registry_okD [OF ok rq] by (simp_all add: removed_closed)
next
  fix q assume q: "q < length (heap (removed i p w))"
    and un: "schedulers (removed i p w) (id' (heap (removed i p w) ! q)) \<noteq> Some q"
  show "stopChan (heap (removed i p w) ! q) = Closed" "\<not> running (heap (removed i p w) ! q)"
  proof -
    have both: "stopChan (heap (removed i p w) ! q) = Closed \<and> \<not> running (heap (removed i p w) ! q)"
    proof (cases "q = p")
      case True
      then show ?thesis using q by (simp add: removed_closed)
    next
      case False
      have "schedulers w (id' (heap w ! q)) \<noteq> Some q"
      proof
        assume a: "schedulers w (id' (heap w ! q)) = Some q"
        with reg False have "id' (heap w ! q) \<noteq> i" by auto
        with a un show False by simp
      qed
      with False q show ?thesis
        using registry_ok_unregistered [OF ok, of q] by (simp add: removed_closed)
    qed
    then show "stopChan (heap (removed i p w) ! q) = Closed" by simp
    from both show "\<not> running (heap (removed i p w) ! q)" by simp
  qed
qed

lemma units_ok_removed: "units_ok w \<Longrightarrow> units_ok (removed i p w)"
  by (simp add: units_ok_def)

lemma StopScheduler_ok:
  assumes ok: "registry_ok w"
  shows "\<exists>w'. StopScheduler i w = Inr w' \<and> registry_ok w' \<and> schedulers w' i = None \<and>
           goroutines w' = goroutines w \<and> sent w' = sent w \<and>
           length (heap w') = length (heap w) \<and>
           (\<forall>q. config (heap w' ! q) = config (heap w ! q)) \<and>
           (\<forall>q. id' (heap w' ! q) = id' (heap w ! q)) \<and>
           (\<forall>j. j \<noteq> i \<longrightarrow> schedulers w' j = schedulers w j) \<and>
           (units_ok w \<longrightarrow> units_ok w')"
proof (cases "schedulers w i")
  case None
  have "StopScheduler i w = Inr (logger_AddLog (NotFound i) w)"
    using None by (rule StopScheduler_absent)
  with ok None show ?thesis by simp
next
  case (Some p)
  have "StopScheduler i w = Inr (removed i p w)"
    using ok Some by (rule StopScheduler_present)
  moreover have "registry_ok (removed i p w)"
    using ok Some by (rule registry_ok_removed)
  moreover have "units_ok w \<longrightarrow> units_ok (removed i p w)"
    by (simp add: units_ok_removed)
  ultimately show ?thesis by simp
qed

lemma registry_ok_set_phase:
  assumes ok: "registry_ok w"
    and fin: "ph = Terminated \<Longrightarrow> schedulers w (id' (heap w ! p)) \<noteq> Some p"
  shows "registry_ok (set_phase p ph w)"
  unfolding registry_ok_def
proof (intro conjI allI impI)
  show "length (goroutines (set_phase p ph w)) = length (heap (set_phase p ph w))"
    using ok by (simp add: registry_ok_length)
next
  fix j q assume "schedulers (set_phase p ph w) j = Some q"
  then have rq: "schedulers w j = Some q" by simp
  note d = registry_okD [OF ok rq]
  from d show "q < length (heap (set_phase p ph w))" "id' (heap (set_phase p ph w) ! q) = j"
    "running (heap (set_phase p ph w) ! q)" "stopChan (heap (set_phase p ph w) ! q) = Open"
    by simp_all
  show "goroutines (set_phase p ph w) ! q \<noteq> Terminated"
  proof (cases "q = p")
    case True
    with rq d(2) fin have "ph \<noteq> Terminated" by auto
    with True d(6) show ?thesis by simp
  next
    case False
    with d(5) show ?thesis by simp
  qed
next
  fix q assume "q < length (heap (set_phase p ph w))"
    and "schedulers (set_phase p ph w) (id' (heap (set_phase p ph w) ! q)) \<noteq> Some q"
  then show "stopChan (heap (set_phase p ph w) ! q) = Closed"
    "\<not> running (heap (set_phase p ph w) ! q)"
    using registry_ok_unregistered [OF ok, of q] by simp_all
qed

lemma units_okD:
  assumes "units_ok w"
  shows "p < length (heap w) \<Longrightarrow> goroutines w ! p = Running \<Longrightarrow>
           repeatInterval (config (heap w ! p)) \<noteq> None"
    and "r \<in> set (sent w) \<Longrightarrow> fst r < length (heap w)"
    and "r \<in> set (sent w) \<Longrightarrow> repeatInterval (config (heap w ! fst r)) \<noteq> None"
  using assms unfolding units_ok_def by blast+

lemma units_ok_set_phase:
  assumes u: "units_ok w" and len: "length (goroutines w) = length (heap w)"
    and r: "ph = Running \<Longrightarrow> repeatInterval (config (heap w ! p)) \<noteq> None"
  shows "units_ok (set_phase p ph w)"
  unfolding units_ok_def
proof (intro conjI allI impI ballI)
  fix q assume q: "q < length (heap (set_phase p ph w))"
    and run: "goroutines (set_phase p ph w) ! q = Running"
  show "repeatInterval (config (heap (set_phase p ph w) ! q)) \<noteq> None"
  proof (cases "q = p")
    case True
    with q run len have "ph = Running" by simp
    with r True show ?thesis by simp
  next
    case False
    with q run units_okD(1) [OF u, of q] show ?thesis by simp
  qed
next
  fix x assume "x \<in> set (sent (set_phase p ph w))"
  then have x: "x \<in> set (sent w)" by simp
  from units_okD(2) [OF u x] show "fst x < length (heap (set_phase p ph w))" by simp
  from units_okD(3) [OF u x]
  show "repeatInterval (config (heap (set_phase p ph w) ! fst x)) \<noteq> None" by simp
qed

lemma self_stop_ok:
  assumes ok: "registry_ok w" and u: "units_ok w"
  shows "\<exists>w1. StopScheduler (id' (heap w ! p)) (logger_AddLog m w) = Inr w1 \<and>
           registry_ok (set_phase p Terminated w1) \<and> units_ok (set_phase p Terminated w1) \<and>
           schedulers w1 (id' (heap w ! p)) = None \<and> goroutines w1 = goroutines w \<and>
           sent w1 = sent w \<and> length (heap w1) = length (heap w) \<and>
           (\<forall>q. config (heap w1 ! q) = config (heap w ! q)) \<and>
           (\<forall>q. id' (heap w1 ! q) = id' (heap w ! q))"
proof -
  let ?i = "id' (heap w ! p)"
  have ok1: "registry_ok (logger_AddLog m w)" using ok by simp
  have "\<exists>w1. StopScheduler ?i (logger_AddLog m w) = Inr w1 \<and> registry_ok w1 \<and>
           schedulers w1 ?i = None \<and> goroutines w1 = goroutines w \<and> sent w1 = sent w \<and>
           length (heap w1) = length (heap w) \<and>
           (\<forall>q. config (heap w1 ! q) = config (heap w ! q)) \<and>
           (\<forall>q. id' (heap w1 ! q) = id' (heap w ! q)) \<and> units_ok w1"
    using StopScheduler_ok [OF ok1, of ?i] u by simp blast
  then obtain w1 where s: "StopScheduler ?i (logger_AddLog m w) = Inr w1"
    and r: "registry_ok w1" and n: "schedulers w1 ?i = None"
    and g: "goroutines w1 = goroutines w" and se: "sent w1 = sent w"
    and l: "length (heap w1) = length (heap w)"
    and c: "\<forall>q. config (heap w1 ! q) = config (heap w ! q)"
    and i: "\<forall>q. id' (heap w1 ! q) = id' (heap w ! q)"
    and u1: "units_ok w1"
    by blast
  have "registry_ok (set_phase p Terminated w1)"
    using r by (rule registry_ok_set_phase) (simp add: i n)
  moreover have "units_ok (set_phase p Terminated w1)"
    using u1 by (rule units_ok_set_phase) (use r in \<open>simp_all add: registry_ok_length\<close>)
  ultimately show ?thesis using s n g se l c i by blast
qed

lemma same_objects_simps [simp]:
  "same_objects w (set_phase p ph w1) = same_objects w w1"
  "same_objects w (logger_AddLog m w1) = same_objects w w1"
  "same_objects w w"
  by (simp_all add: same_objects_def)

lemma run_begin_error:
  assumes ok: "registry_ok w" and u: "units_ok w"
  shows "\<exists>w1. run_begin p now (Inl err) w = Inr (set_phase p Terminated w1) \<and>
           registry_ok (set_phase p Terminated w1) \<and> units_ok (set_phase p Terminated w1) \<and>
           schedulers w1 (id' (heap w ! p)) = None \<and> goroutines w1 = goroutines w \<and>
           sent w1 = sent w \<and> same_objects w w1"
proof -
  let ?s = "heap w ! p"
  let ?w2 = "logger_AddLog (Settings (id' ?s) (StartTime (config ?s)) (RepeatValue (config ?s))
                (RepeatUnit (config ?s)) (APIURL (config ?s)))
              (logger_AddLog (StartRequested (id' ?s)) w)"
  have ok2: "registry_ok ?w2" and u2: "units_ok ?w2" using ok u by simp_all
  from self_stop_ok [OF ok2 u2, of p "StartTimeParseError (id' ?s) err"]
  obtain w1 where "StopScheduler (id' ?s) (logger_AddLog (StartTimeParseError (id' ?s) err) ?w2) = Inr w1"
    and "registry_ok (set_phase p Terminated w1)" and "units_ok (set_phase p Terminated w1)"
    and "schedulers w1 (id' ?s) = None" and "goroutines w1 = goroutines w"
    and "sent w1 = sent w" and "length (heap w1) = length (heap w)"
    and "\<forall>q. config (heap w1 ! q) = config (heap w ! q)"
    and "\<forall>q. id' (heap w1 ! q) = id' (heap w ! q)"
    by auto
  then show ?thesis
    by (intro exI [of _ w1]) (simp add: run_begin_def Let_def same_objects_def)
qed

lemma day: "sint (24 * Hour) = 86400000000000"
  by (simp add: Hour_def Minute_def Second_def)

lemma run_begin_parsed: "run_begin p now (Inr startTime) w = Inr (begun p now startTime w)"
  by (simp add: run_begin_def begun_def Let_def Time_Before_def Time_Add_def day)

lemma begun_ok:
  assumes ok: "registry_ok w" and u: "units_ok w"
  shows "registry_ok (begun p now st w)" and "units_ok (begun p now st w)"
proof -
  show "registry_ok (begun p now st w)"
    unfolding begun_def Let_def by (rule registry_ok_set_phase) (use ok in simp_all)
  show "units_ok (begun p now st w)"
    unfolding begun_def Let_def
    by (rule units_ok_set_phase) (use ok u in \<open>simp_all add: registry_ok_length\<close>)
qed

lemma run_start_invalid:
  assumes ok: "registry_ok w" and u: "units_ok w"
    and inv: "repeatInterval (config (heap w ! p)) = None"
  shows "\<exists>w1. run_start p w = Inr (set_phase p Terminated w1) \<and>
           registry_ok (set_phase p Terminated w1) \<and> units_ok (set_phase p Terminated w1) \<and>
           schedulers w1 (id' (heap w ! p)) = None \<and> goroutines w1 = goroutines w \<and>
           sent w1 = sent w \<and> same_objects w w1"
proof -
  let ?s = "heap w ! p"
  from self_stop_ok [OF ok u, of p "InvalidRepeatUnit (id' ?s)"]
  obtain w1 where "StopScheduler (id' ?s) (logger_AddLog (InvalidRepeatUnit (id' ?s)) w) = Inr w1"
    and "registry_ok (set_phase p Terminated w1)" and "units_ok (set_phase p Terminated w1)"
    and "schedulers w1 (id' ?s) = None" and "goroutines w1 = goroutines w"
    and "sent w1 = sent w" and "length (heap w1) = length (heap w)"
    and "\<forall>q. config (heap w1 ! q) = config (heap w ! q)"
    and "\<forall>q. id' (heap w1 ! q) = id' (heap w ! q)"
    by auto
  then show ?thesis using inv
    by (intro exI [of _ w1]) (simp add: run_start_def Let_def same_objects_def)
qed

lemma run_start_valid:
  assumes "repeatInterval (config (heap w ! p)) = Some d"
  shows "run_start p w =
           (if sint d \<le> 0 then Inl NonPositiveTickerInterval
            else Inr (set_phase p Running (logger_AddLog (NowRunning (id' (heap w ! p))) w)))"
  using assms by (simp add: run_start_def NewTicker_def Let_def)

lemma run_start_ok:
  assumes ok: "registry_ok w" and u: "units_ok w" and r: "run_start p w = Inr w'"
  shows "registry_ok w' \<and> units_ok w' \<and> same_objects w w' \<and>
         (\<exists>ph. goroutines w' = (goroutines w)[p := ph])"
proof (cases "repeatInterval (config (heap w ! p))")
  case None
  from run_start_invalid [OF ok u None] r show ?thesis
    by (auto simp: same_objects_def)
next
  case (Some d)
  let ?w1 = "logger_AddLog (NowRunning (id' (heap w ! p))) w"
  from r Some have w': "w' = set_phase p Running ?w1"
    by (simp add: run_start_valid split: if_splits)
  have "registry_ok (set_phase p Running ?w1)"
    by (rule registry_ok_set_phase) (use ok in simp_all)
  moreover have "units_ok (set_phase p Running ?w1)"
    by (rule units_ok_set_phase) (use ok u Some in \<open>simp_all add: registry_ok_length\<close>)
  ultimately show ?thesis unfolding w' by (auto simp: same_objects_def)
qed

lemma run_stopped_ok:
  assumes ok: "registry_ok w" and u: "units_ok w" and p: "p < length (heap w)"
    and c: "stopChan (heap w ! p) = Closed"
  shows "registry_ok (run_stopped p w) \<and> units_ok (run_stopped p w) \<and>
         same_objects w (run_stopped p w) \<and>
         (\<exists>ph. goroutines (run_stopped p w) = (goroutines w)[p := ph])"
proof -
  have un: "schedulers w (id' (heap w ! p)) \<noteq> Some p"
    using registry_okD(4) [OF ok, of "id' (heap w ! p)" p] c by auto
  have r: "registry_ok (set_phase p Terminated (logger_AddLog m w))" for m
    by (rule registry_ok_set_phase) (use ok un in simp_all)
  have v: "units_ok (set_phase p Terminated (logger_AddLog m w))" for m
    by (rule units_ok_set_phase) (use ok u in \<open>simp_all add: registry_ok_length\<close>)
  have same: "goroutines w = (goroutines w)[p := goroutines w ! p]" by simp
  show ?thesis
  proof (cases "goroutines w ! p")
    case (Waiting d)
    then show ?thesis using r v by (auto simp: run_stopped_def same_objects_def)
  next
    case Running
    then show ?thesis using r v by (auto simp: run_stopped_def same_objects_def)
  next
    case Pending
    then show ?thesis using ok u same by (auto simp: run_stopped_def same_objects_def)
  next
    case Terminated
    then show ?thesis using ok u same by (auto simp: run_stopped_def same_objects_def)
  qed
qed

lemma registry_ok_sent [simp]: "registry_ok (w\<lparr>sent := x\<rparr>) = registry_ok w"
  by (simp add: registry_ok_def)

lemma units_ok_sent:
  assumes u: "units_ok w" and p: "p < length (heap w)"
    and r: "repeatInterval (config (heap w ! p)) \<noteq> None"
  shows "units_ok (w\<lparr>sent := sent w @ [(p, req)]\<rparr>)"
  unfolding units_ok_def
proof (intro conjI allI impI ballI)
  fix q assume "q < length (heap (w\<lparr>sent := sent w @ [(p, req)]\<rparr>))"
    and "goroutines (w\<lparr>sent := sent w @ [(p, req)]\<rparr>) ! q = Running"
  then show "repeatInterval (config (heap (w\<lparr>sent := sent w @ [(p, req)]\<rparr>) ! q)) \<noteq> None"
    using units_okD(1) [OF u, of q] by simp
next
  fix x assume "x \<in> set (sent (w\<lparr>sent := sent w @ [(p, req)]\<rparr>))"
  then have x: "x \<in> set (sent w) \<or> x = (p, req)" by auto
  then show "fst x < length (heap (w\<lparr>sent := sent w @ [(p, req)]\<rparr>))"
    using units_okD(2) [OF u, of x] p by auto
  from x show "repeatInterval (config (heap (w\<lparr>sent := sent w @ [(p, req)]\<rparr>) ! fst x)) \<noteq> None"
    using units_okD(3) [OF u, of x] r by auto
qed

lemma callAPI_send_ok:
  assumes ok: "registry_ok w" and u: "units_ok w" and p: "p < length (heap w)"
    and r: "repeatInterval (config (heap w ! p)) \<noteq> None"
  shows "\<exists>w'. callAPI_send p req env w = Inr w' \<and> registry_ok w' \<and> units_ok w' \<and>
           goroutines w' = goroutines w \<and> sent w' = sent w @ [(p, req)] \<and>
           same_objects w w'"
proof -
  let ?w1 = "w\<lparr>sent := sent w @ [(p, req)]\<rparr>"
  have ok1: "registry_ok ?w1" using ok by simp
  have u1: "units_ok ?w1" using u p r by (rule units_ok_sent)
  show ?thesis
  proof (cases "client_Do env")
    case (TransportFailure err)
    then show ?thesis using ok1 u1
      by (simp add: callAPI_send_def Let_def same_objects_def)
  next
    case (UnreadableBody code err)
    then show ?thesis using ok1 u1
      by (simp add: callAPI_send_def Let_def same_objects_def)
  next
    case (Reply code body)
    show ?thesis
    proof (cases "code = 200")
      case False
      with Reply show ?thesis using ok1 u1
        by (simp add: callAPI_send_def Let_def same_objects_def)
    next
      case True
      let ?i = "id' (heap w ! p)"
      let ?w4 = "logger_AddLog (AutoStopOn200 ?i)
                  (logger_AddLog (ResponseBody ?i body) (logger_AddLog (CallStatus ?i code) ?w1))"
      have ok4: "registry_ok ?w4" and u4: "units_ok ?w4" using ok1 u1 by simp_all
      have "\<exists>w'. StopScheduler ?i ?w4 = Inr w' \<and> registry_ok w' \<and> units_ok w' \<and>
              goroutines w' = goroutines w \<and> sent w' = sent w @ [(p, req)] \<and>
              same_objects w w'"
        using StopScheduler_ok [OF ok4, of ?i] u4 by (simp add: same_objects_def) blast
      with Reply True show ?thesis
        by (simp add: callAPI_send_def Let_def)
    qed
  qed
qed

lemma callAPI_ok:
  assumes ok: "registry_ok w" and u: "units_ok w" and p: "p < length (heap w)"
    and r: "repeatInterval (config (heap w ! p)) \<noteq> None"
  shows "\<exists>w'. callAPI p env w = Inr w' \<and> registry_ok w' \<and> units_ok w' \<and>
           goroutines w' = goroutines w \<and> same_objects w w'"
proof -
  let ?s = "heap w ! p"
  let ?w1 = "logger_AddLog (CallStart (id' ?s) (APIURL (config ?s)) (HTTPMethod (config ?s))) w"
  show ?thesis
  proof (cases "callAPI_request (id' ?s) (config ?s) env")
    case (Inl m)
    then show ?thesis using ok u
      by (simp add: callAPI_def Let_def same_objects_def)
  next
    case (Inr req)
    have "\<exists>w'. callAPI_send p req env ?w1 = Inr w' \<and> registry_ok w' \<and> units_ok w' \<and>
           goroutines w' = goroutines ?w1 \<and> sent w' = sent ?w1 @ [(p, req)] \<and>
           same_objects ?w1 w'"
      by (rule callAPI_send_ok) (use ok u p r in simp_all)
    with Inr show ?thesis
      by (simp add: callAPI_def Let_def same_objects_def) blast
  qed
qed

lemma extends_refl: "extends w w"
  by (simp add: extends_def)

lemma extends_trans: "extends w w1 \<Longrightarrow> extends w1 w2 \<Longrightarrow> extends w w2"
  unfolding extends_def by force

lemma extends_same:
  assumes "same_objects w w'" and "\<exists>ph. goroutines w' = (goroutines w)[p := ph]"
    and "goroutines w ! p \<noteq> Terminated"
  shows "extends w w'"
  using assms unfolding extends_def same_objects_def
  by (metis nth_list_update_neq order_refl)

lemma extends_same_goroutines:
  assumes "same_objects w w'" and "goroutines w' = goroutines w"
  shows "extends w w'"
  using assms unfolding extends_def same_objects_def by simp

lemma extends_Start:
  assumes "registry_ok w"
  shows "extends w (StartScheduler i c w)"
  using registry_ok_length [OF assms]
  by (cases "schedulers w i") (simp_all add: extends_def StartScheduler_def Let_def nth_append)

lemma step_ok:
  assumes ok: "registry_ok w" and u: "units_ok w" and st: "step e w = Inr w'"
  shows "registry_ok w' \<and> units_ok w' \<and> extends w w'"
proof (cases e)
  case (Start i c)
  with st have "w' = StartScheduler i c w" by simp
  then show ?thesis
    using registry_ok_Start [OF ok] units_ok_Start [OF ok u] extends_Start [OF ok] by simp
next
  case (Stop i)
  with st StopScheduler_ok [OF ok, of i] u show ?thesis
    by (auto intro!: extends_same_goroutines simp: same_objects_def)
next
  case (Begin p now parsed)
  show ?thesis
  proof (cases "live p w \<and> goroutines w ! p = Pending")
    case False
    with st Begin ok u show ?thesis by (auto simp: extends_refl)
  next
    case True
    show ?thesis
    proof (cases parsed)
      case (Inl err)
      from run_begin_error [OF ok u, of p now err] st Begin True Inl
      show ?thesis
        by (auto intro!: extends_same [of w _ p])
    next
      case (Inr t0)
      from st Begin True Inr have w': "w' = begun p now t0 w"
        by (simp add: run_begin_parsed)
      have "extends w (begun p now t0 w)"
        by (rule extends_same [of w _ p])
           (use True in \<open>auto simp: begun_def Let_def same_objects_def\<close>)
      then show ?thesis unfolding w' using begun_ok [OF ok u] by simp
    qed
  qed
next
  case (TimerFired p)
  show ?thesis
  proof (cases "live p w \<and> waiting (goroutines w ! p)")
    case False
    with st TimerFired ok u show ?thesis by (auto simp: extends_refl)
  next
    case True
    then have nt: "goroutines w ! p \<noteq> Terminated" by auto
    from st TimerFired True have "run_start p w = Inr w'" by simp
    from run_start_ok [OF ok u this] nt show ?thesis
      by (auto intro!: extends_same [of w _ p])
  qed
next
  case (Tick p env)
  show ?thesis
  proof (cases "live p w \<and> goroutines w ! p = Running")
    case False
    with st Tick ok u show ?thesis by (auto simp: extends_refl)
  next
    case True
    then have p: "p < length (heap w)" by (simp add: live_def)
    from units_okD(1) [OF u p] True callAPI_ok [OF ok u p, of env] st Tick
    show ?thesis
      by (auto intro!: extends_same_goroutines)
  qed
next
  case (StopSeen p)
  show ?thesis
  proof (cases "live p w \<and> stopChan (heap w ! p) = Closed")
    case False
    with st StopSeen ok u show ?thesis by (auto simp: extends_refl)
  next
    case True
    then have p: "p < length (heap w)" and c: "stopChan (heap w ! p) = Closed"
      by (simp_all add: live_def)
    from st StopSeen True have w': "w' = run_stopped p w" by simp
    show ?thesis
    proof (cases "goroutines w ! p = Terminated")
      case True
      then have "run_stopped p w = w" by (simp add: run_stopped_def)
      with w' ok u show ?thesis by (simp add: extends_refl)
    next
      case False
      with run_stopped_ok [OF ok u p c] show ?thesis unfolding w'
        by (auto intro!: extends_same [of w _ p])
    qed
  qed
next
  case (ClockReads t)
  with st have w': "w' = w\<lparr>clock := t\<rparr>" by auto
  show ?thesis unfolding w' using ok u
    by (simp add: registry_ok_def units_ok_def extends_def)
qed

lemma exec_ok:
  assumes "registry_ok w" and "units_ok w" and "exec es w = Inr w'"
  shows "registry_ok w' \<and> units_ok w' \<and> extends w w'"
  using assms
proof (induction es arbitrary: w)
  case Nil
  then show ?case by (simp add: extends_refl)
next
  case (Cons e es)
  from Cons.prems(3) obtain w1 where s: "step e w = Inr w1" and r: "exec es w1 = Inr w'"
    by (auto split: sum.splits)
  from step_ok [OF Cons.prems(1,2) s]
  have a: "registry_ok w1" "units_ok w1" "extends w w1" by simp_all
  from Cons.IH [OF a(1,2) r] a(3) show ?case
    by (auto intro: extends_trans)
qed

lemma reachable_ok:
  assumes "exec es (Init t) = Inr w"
  shows "registry_ok w" and "units_ok w"
  using exec_ok [OF registry_ok_Init units_ok_Init assms] by simp_all

section \<open>Start and stop\<close>

lemma filter_upt_single:
  assumes "p < n" and "P p" and "\<And>q. q < n \<Longrightarrow> P q \<Longrightarrow> q = p"
  shows "filter P [0..<n] = [p]"
proof (rule sorted_distinct_set_unique)
  show "sorted (filter P [0..<n])" by (simp add: sorted_wrt_filter)
  show "set (filter P [0..<n]) = set [p]"
  proof (intro equalityI subsetI)
    fix q assume "q \<in> set (filter P [0..<n])"
    then have "q < n" and "P q" by simp_all
    from assms(3) [OF this] show "q \<in> set [p]" by simp
  next
    fix q assume "q \<in> set [p]"
    then show "q \<in> set (filter P [0..<n])" using assms(1,2) by simp
  qed
  show "distinct (filter P [0..<n])" by simp
  show "sorted [p]" by simp
  show "distinct [p]" by simp
qed

lemma running_under_registered:
  assumes ok: "registry_ok w" and reg: "schedulers w i = Some p"
  shows "running_under i w = [p]"
  unfolding running_under_def
proof (rule filter_upt_single)
  show "p < length (heap w)" using registry_okD(1) [OF ok reg] .
  show "id' (heap w ! p) = i \<and> running (heap w ! p)"
    using registry_okD(2,3) [OF ok reg] by simp
next
  fix q assume q: "q < length (heap w)" and r: "id' (heap w ! q) = i \<and> running (heap w ! q)"
  have "schedulers w (id' (heap w ! q)) = Some q"
    using registry_ok_unregistered(2) [OF ok q] r by blast
  with r reg show "q = p" by simp
qed

text \<open>
  C1. In every state in which identifier \<open>i\<close> is registered, \<^verbatim>\<open>StartScheduler\<close> with
  \<open>i\<close> and any configuration does nothing but log the "already running" line: the registry,
  every scheduler object (so the first job's configuration) and the goroutines stay as they
  are, no second job is created, and in a reachable state the registered scheduler is still
  the only one under \<open>i\<close> whose \<^verbatim>\<open>running\<close> flag is set.
\<close>

theorem duplicate_start_ignored:
  "schedulers w i = Some p \<Longrightarrow>
     StartScheduler i c' w = logger_AddLog (AlreadyRunning i) w \<and>
     schedulers (StartScheduler i c' w) = schedulers w \<and>
     heap (StartScheduler i c' w) = heap w \<and>
     goroutines (StartScheduler i c' w) = goroutines w \<and>
     Message (last (logs (StartScheduler i c' w))) = AlreadyRunning i \<and>
     (exec es (Init t) = Inr w \<longrightarrow> running_under i (StartScheduler i c' w) = [p])"
proof -
  assume reg: "schedulers w i = Some p"
  then have eq: "StartScheduler i c' w = logger_AddLog (AlreadyRunning i) w"
    by (simp add: StartScheduler_def)
  have "running_under i (logger_AddLog (AlreadyRunning i) w) = [p]"
    if "exec es (Init t) = Inr w"
    by (rule running_under_registered) (use reachable_ok(1) [OF that] reg in simp_all)
  then show ?thesis unfolding eq by simp
qed

theorem duplicate_start_ignored_witness:
  "schedulers (StartScheduler ''a'' example_config (Init [])) ''a'' = Some 0 \<and>
   exec [Start ''a'' example_config] (Init []) = Inr (StartScheduler ''a'' example_config (Init [])) \<and>
   heap (StartScheduler ''a'' (example_config\<lparr>RepeatValue := 5\<rparr>)
           (StartScheduler ''a'' example_config (Init [])))
     = heap (StartScheduler ''a'' example_config (Init [])) \<and>
   running_under ''a'' (StartScheduler ''a'' (example_config\<lparr>RepeatValue := 5\<rparr>)
                          (StartScheduler ''a'' example_config (Init []))) = [0]"
  using duplicate_start_ignored [of "StartScheduler ''a'' example_config (Init [])" "''a''" 0
          "example_config\<lparr>RepeatValue := 5\<rparr>" "[Start ''a'' example_config]" "[]"]
  by (simp add: StartScheduler_def Init_def)

text \<open>
  C2. \<^verbatim>\<open>StopScheduler\<close> with an identifier that is not registered logs the "not found"
  line and leaves the registry, the objects and the goroutines unchanged. In every reachable
  state a first \<^verbatim>\<open>StopScheduler\<close> leaves the identifier unregistered, so a second one
  directly after it only logs "not found": two calls change the registry as one call does.
\<close>

theorem stop_unknown_id:
  "(schedulers w i = None \<longrightarrow>
      StopScheduler i w = Inr (logger_AddLog (NotFound i) w) \<and>
      schedulers (logger_AddLog (NotFound i) w) = schedulers w \<and>
      heap (logger_AddLog (NotFound i) w) = heap w \<and>
      goroutines (logger_AddLog (NotFound i) w) = goroutines w \<and>
      Message (last (logs (logger_AddLog (NotFound i) w))) = NotFound i) \<and>
   (exec es (Init t) = Inr w \<longrightarrow>
      (\<exists>w1. StopScheduler i w = Inr w1 \<and> schedulers w1 i = None \<and>
            StopScheduler i w1 = Inr (logger_AddLog (NotFound i) w1)))"
proof (intro conjI impI)
  assume "exec es (Init t) = Inr w"
  then have "registry_ok w" by (rule reachable_ok)
  from StopScheduler_ok [OF this, of i]
  obtain w1 where "StopScheduler i w = Inr w1" and "schedulers w1 i = None" by blast
  then show "\<exists>w1. StopScheduler i w = Inr w1 \<and> schedulers w1 i = None \<and>
            StopScheduler i w1 = Inr (logger_AddLog (NotFound i) w1)"
    by (simp add: StopScheduler_absent)
qed (simp_all add: StopScheduler_absent)

theorem stop_unknown_id_witness:
  "schedulers (StartScheduler ''a'' example_config (Init [])) ''b'' = None \<and>
   exec [Start ''a'' example_config] (Init []) = Inr (StartScheduler ''a'' example_config (Init [])) \<and>
   StopScheduler ''b'' (StartScheduler ''a'' example_config (Init []))
     = Inr (logger_AddLog (NotFound ''b'') (StartScheduler ''a'' example_config (Init []))) \<and>
   (\<exists>w1. StopScheduler ''a'' (StartScheduler ''a'' example_config (Init [])) = Inr w1 \<and>
         schedulers w1 ''a'' = None \<and>
         StopScheduler ''a'' w1 = Inr (logger_AddLog (NotFound ''a'') w1))"
  using stop_unknown_id [of "StartScheduler ''a'' example_config (Init [])" "''b''"
          "[Start ''a'' example_config]" "[]"]
    stop_unknown_id [of "StartScheduler ''a'' example_config (Init [])" "''a''"
          "[Start ''a'' example_config]" "[]"]
  by (simp add: StartScheduler_def Init_def)

text \<open>
  C10. In every reachable state each registered pointer refers to a scheduler whose
  \<^verbatim>\<open>running\<close> flag is set, and \<^verbatim>\<open>StopScheduler\<close> never takes its "present but not
  running" branch: it returns, and the line it logs is not the "not running" line.
\<close>

theorem registered_is_running:
  "exec es (Init t) = Inr w \<Longrightarrow>
     (\<forall>i p. schedulers w i = Some p \<longrightarrow> p < length (heap w) \<and> running (heap w ! p)) \<and>
     (\<forall>i. \<exists>w'. StopScheduler i w = Inr w' \<and> Message (last (logs w')) \<noteq> NotRunning i)"
proof -
  assume "exec es (Init t) = Inr w"
  then have ok: "registry_ok w" by (rule reachable_ok)
  have "\<exists>w'. StopScheduler i w = Inr w' \<and> Message (last (logs w')) \<noteq> NotRunning i" for i
  proof (cases "schedulers w i")
    case None
    then show ?thesis by (simp add: StopScheduler_absent)
  next
    case (Some p)
    with ok show ?thesis by (simp add: StopScheduler_present removed_def)
  qed
  then show ?thesis using registry_okD(1,3) [OF ok] by blast
qed

theorem registered_is_running_witness:
  "exec [Start ''a'' example_config] (Init []) = Inr (StartScheduler ''a'' example_config (Init [])) \<and>
   schedulers (StartScheduler ''a'' example_config (Init [])) ''a'' = Some 0 \<and>
   running (heap (StartScheduler ''a'' example_config (Init [])) ! 0) \<and>
   (\<exists>w'. StopScheduler ''a'' (StartScheduler ''a'' example_config (Init [])) = Inr w' \<and>
         Message (last (logs w')) \<noteq> NotRunning ''a'')"
  using registered_is_running [of "[Start ''a'' example_config]" "[]"
          "StartScheduler ''a'' example_config (Init [])"]
  by (simp add: StartScheduler_def Init_def)

section \<open>The goroutine of a scheduler\<close>

lemma only_ticker_panics:
  assumes ok: "registry_ok w" and u: "units_ok w" and st: "step e w = Inl x"
  shows "x = NonPositiveTickerInterval \<and>
         (\<exists>p d. e = TimerFired p \<and> repeatInterval (config (heap w ! p)) = Some d \<and> sint d \<le> 0)"
proof (cases e)
  case (Start i c)
  with st show ?thesis by simp
next
  case (Stop i)
  with st StopScheduler_ok [OF ok, of i] show ?thesis by auto
next
  case (Begin p now parsed)
  show ?thesis
  proof (cases parsed)
    case (Inl err)
    with st Begin run_begin_error [OF ok u, of p now err] show ?thesis
      by (auto split: if_splits)
  next
    case (Inr t0)
    with st Begin show ?thesis by (auto simp: run_begin_parsed split: if_splits)
  qed
next
  case (TimerFired p)
  with st have r: "run_start p w = Inl x" by (auto split: if_splits)
  show ?thesis
  proof (cases "repeatInterval (config (heap w ! p))")
    case None
    with r run_start_invalid [OF ok u None] show ?thesis by auto
  next
    case (Some d)
    with r TimerFired show ?thesis by (auto simp: run_start_valid split: if_splits)
  qed
next
  case (Tick p env)
  with st have c: "callAPI p env w = Inl x" and l: "live p w" and r: "goroutines w ! p = Running"
    by (auto split: if_splits)
  from l have p: "p < length (heap w)" by (simp add: live_def)
  from units_okD(1) [OF u p r] callAPI_ok [OF ok u p, of env] c show ?thesis by auto
next
  case (StopSeen p)
  with st show ?thesis by (auto split: if_splits)
next
  case (ClockReads t)
  with st show ?thesis by simp
qed

text \<open>
  C6. When the start time parses, \<^verbatim>\<open>run\<close> waits for the parsed instant if that is not
  before the current time, and for the parsed instant plus exactly 24 hours if it is; there
  is one shift and no further correction, also when the shifted instant is still in the past.
\<close>

theorem single_rollover:
  "live p w \<Longrightarrow>
     Time_Add startTime (24 * Hour) = startTime + 86400000000000 \<and>
     (\<exists>w'. run_begin p now (Inr startTime) w = Inr w' \<and>
        (startTime < now \<longrightarrow>
           goroutines w' ! p = Waiting (Time_Sub (startTime + 86400000000000) now) \<and>
           Message (last (logs w')) =
             WaitingForStart (id' (heap w ! p)) (Time_Sub (startTime + 86400000000000) now)) \<and>
        (\<not> startTime < now \<longrightarrow>
           goroutines w' ! p = Waiting (Time_Sub startTime now) \<and>
           Message (last (logs w')) =
             WaitingForStart (id' (heap w ! p)) (Time_Sub startTime now)))"
  by (simp add: Time_Add_def day run_begin_parsed begun_def Let_def live_def)

theorem single_rollover_witness:
  "live 0 (StartScheduler ''a'' example_config (Init [])) \<and>
   (\<exists>w'. run_begin 0 864000000000000 (Inr 0) (StartScheduler ''a'' example_config (Init [])) = Inr w'
       \<and> goroutines w' ! 0 = Waiting (- 777600000000000)) \<and>
   (\<exists>w'. run_begin 0 5 (Inr 7) (StartScheduler ''a'' example_config (Init [])) = Inr w'
       \<and> goroutines w' ! 0 = Waiting 2)"
  using single_rollover [of 0 "StartScheduler ''a'' example_config (Init [])" 0 864000000000000]
    single_rollover [of 0 "StartScheduler ''a'' example_config (Init [])" 7 5]
  by (simp add: live_def StartScheduler_def Init_def Time_Sub_def) blast

text \<open>
  C9 fails on the code: with a repeat value of 0, or a negative one, or one whose product
  with the unit wraps to 0 in 64 bits (\<open>2 ^ 51\<close> hours), \<^verbatim>\<open>time.NewTicker\<close> panics as soon
  as the wait is over. Nothing in \<^verbatim>\<open>run\<close> checks the repeat value, while the repeat unit
  and the start time are checked and end the job with a log line.
\<close>

theorem ticker_panics:
  "exec [Start ''a'' (example_config\<lparr>RepeatValue := 0\<rparr>), Begin 0 5 (Inr 7), TimerFired 0]
        (Init []) = Inl NonPositiveTickerInterval \<and>
   exec [Start ''a'' (example_config\<lparr>RepeatValue := - 1\<rparr>), Begin 0 5 (Inr 7), TimerFired 0]
        (Init []) = Inl NonPositiveTickerInterval \<and>
   exec [Start ''a'' (example_config\<lparr>RepeatValue := 2251799813685248, RepeatUnit := ''h''\<rparr>),
         Begin 0 5 (Inr 7), TimerFired 0]
        (Init []) = Inl NonPositiveTickerInterval"
  by (simp add: example_config_def Init_def StartScheduler_def run_begin_parsed begun_def
        run_start_def live_def logger_AddLog_def AddLog_def set_phase_def Time_Sub_def
        Hour_def Minute_def Second_def repeatInterval_def NewTicker_def Let_def)

lemma repeatInterval_None:
  "repeatInterval c = None \<longleftrightarrow> RepeatUnit c \<notin> {''h'', ''m'', ''s''}"
  by (simp add: repeatInterval_def)

lemma exec_append:
  "exec (es @ es') w = (case exec es w of Inl x \<Rightarrow> Inl x | Inr w1 \<Rightarrow> exec es' w1)"
  by (induction es arbitrary: w) (simp_all split: sum.splits)

text \<open>
  C4. In every reachable state, a scheduler whose repeat unit is not h, m or s is not in the
  ticker loop and has sent no request. When its wait is over it returns without sending
  anything, and after its own \<^verbatim>\<open>StopScheduler\<close> call its identifier is free; no new
  scheduler is created for it. Once it has returned it is not registered, and no step brings
  it back.
\<close>

theorem invalid_unit_never_runs:
  assumes reach: "exec es (Init t) = Inr w" and p: "p < length (heap w)"
    and unit: "RepeatUnit (config (heap w ! p)) \<notin> {''h'', ''m'', ''s''}"
  shows "goroutines w ! p \<noteq> Running \<and> (\<forall>r \<in> set (sent w). fst r \<noteq> p) \<and>
    (waiting (goroutines w ! p) \<longrightarrow>
       (\<exists>w'. step (TimerFired p) w = Inr w' \<and> goroutines w' ! p = Terminated \<and>
             schedulers w' (id' (heap w ! p)) = None \<and> sent w' = sent w \<and>
             length (heap w') = length (heap w))) \<and>
    (goroutines w ! p = Terminated \<longrightarrow>
       schedulers w (id' (heap w ! p)) \<noteq> Some p \<and>
       (\<forall>e w'. step e w = Inr w' \<longrightarrow> goroutines w' ! p = Terminated))"
proof (intro conjI impI allI ballI)
  note ok = reachable_ok(1) [OF reach] and u = reachable_ok(2) [OF reach]
  have none: "repeatInterval (config (heap w ! p)) = None"
    using unit by (simp add: repeatInterval_None)
  have pg: "p < length (goroutines w)" using ok p by (simp add: registry_ok_length)
  show "goroutines w ! p \<noteq> Running"
    using units_okD(1) [OF u p] none by blast
  show "fst r \<noteq> p" if "r \<in> set (sent w)" for r
    using units_okD(3) [OF u that] none by auto
  show "\<exists>w'. step (TimerFired p) w = Inr w' \<and> goroutines w' ! p = Terminated \<and>
             schedulers w' (id' (heap w ! p)) = None \<and> sent w' = sent w \<and>
             length (heap w') = length (heap w)"
    if "waiting (goroutines w ! p)"
  proof -
    from run_start_invalid [OF ok u none]
    obtain w1 where "run_start p w = Inr (set_phase p Terminated w1)"
      and "schedulers w1 (id' (heap w ! p)) = None" and "goroutines w1 = goroutines w"
      and "sent w1 = sent w" and "same_objects w w1"
      by blast
    with that p pg show ?thesis
      by (intro exI [of _ "set_phase p Terminated w1"]) (simp add: live_def same_objects_def)
  qed
  show "schedulers w (id' (heap w ! p)) \<noteq> Some p" if "goroutines w ! p = Terminated"
    using registry_okD(5) [OF ok, of "id' (heap w ! p)" p] that by blast
  show "goroutines w' ! p = Terminated"
    if "goroutines w ! p = Terminated" and "step e w = Inr w'" for e w'
    using step_ok [OF ok u that(2)] that(1) p by (simp add: extends_def)
qed

theorem invalid_unit_never_runs_witness:
  "\<exists>w w2.
     exec [Start ''a'' (example_config\<lparr>RepeatUnit := ''d''\<rparr>), Begin 0 5 (Inr 7)] (Init []) = Inr w \<and>
     0 < length (heap w) \<and> RepeatUnit (config (heap w ! 0)) \<notin> {''h'', ''m'', ''s''} \<and>
     waiting (goroutines w ! 0) \<and> goroutines w ! 0 \<noteq> Running \<and>
     (\<exists>w'. step (TimerFired 0) w = Inr w' \<and> goroutines w' ! 0 = Terminated \<and>
           schedulers w' ''a'' = None) \<and>
     exec [Start ''a'' (example_config\<lparr>RepeatUnit := ''d''\<rparr>), Begin 0 5 (Inr 7), TimerFired 0]
       (Init []) = Inr w2 \<and>
     goroutines w2 ! 0 = Terminated \<and> schedulers w2 ''a'' \<noteq> Some 0"
proof -
  let ?c = "example_config\<lparr>RepeatUnit := ''d''\<rparr>"
  let ?es = "[Start ''a'' ?c, Begin 0 5 (Inr 7)]"
  have "\<exists>w. exec ?es (Init []) = Inr w \<and> 0 < length (heap w) \<and>
          RepeatUnit (config (heap w ! 0)) \<notin> {''h'', ''m'', ''s''} \<and>
          waiting (goroutines w ! 0) \<and> id' (heap w ! 0) = ''a''"
    by (simp add: example_config_def Init_def StartScheduler_def run_begin_parsed begun_def
          live_def Let_def)
  then obtain w where w: "exec ?es (Init []) = Inr w" "0 < length (heap w)"
      "RepeatUnit (config (heap w ! 0)) \<notin> {''h'', ''m'', ''s''}"
      "waiting (goroutines w ! 0)" "id' (heap w ! 0) = ''a''"
    by blast
  note a = invalid_unit_never_runs [OF w(1,2,3)]
  from a w(4,5) obtain w' where w': "step (TimerFired 0) w = Inr w'"
      "goroutines w' ! 0 = Terminated" "schedulers w' ''a'' = None"
      "length (heap w') = length (heap w)"
    by auto
  have e1: "exec [TimerFired 0] w = Inr w'"
    using w'(1) by simp
  have e2: "exec (?es @ [TimerFired 0]) (Init []) = Inr w'"
    unfolding exec_append w(1) by (simp only: sum.case e1)
  have same: "config (heap w' ! 0) = config (heap w ! 0) \<and> id' (heap w' ! 0) = id' (heap w ! 0)"
    using step_ok [OF reachable_ok [OF w(1)] w'(1)] w(2) by (simp add: extends_def)
  have "schedulers w' (id' (heap w' ! 0)) \<noteq> Some 0"
    using invalid_unit_never_runs [OF e2, of 0] w'(2,4) w(2,3) same by simp
  with a w w' e2 same show ?thesis
    by (intro exI [of _ w] exI [of _ w']) simp
qed

section \<open>Dispatch\<close>

lemma StartScheduler_absent:
  assumes "schedulers w i = None" and "length (goroutines w) = length (heap w)"
  shows "schedulers (StartScheduler i c w) i = Some (length (heap w))"
    and "config (heap (StartScheduler i c w) ! length (heap w)) = c"
    and "goroutines (StartScheduler i c w) ! length (heap w) = Pending"
  using assms by (simp_all add: StartScheduler_def Let_def nth_append)

text \<open>
  C5. A registered scheduler in its ticker loop sends a request and receives a reply with
  status \<open>code\<close>. Afterwards its identifier is free if and only if \<open>code\<close> is 200. With
  200 its channel is closed and its flag cleared, the next receive from the channel ends
  its goroutine, and a following \<^verbatim>\<open>StartScheduler\<close> with the same identifier registers
  a new scheduler with the new configuration. With any other status the registry and the
  objects are unchanged and the goroutine is back in the ticker loop.
\<close>

theorem auto_stop_iff_200:
  assumes reach: "exec es (Init t) = Inr w" and l: "live p w"
    and r: "goroutines w ! p = Running"
    and reg: "schedulers w (id' (heap w ! p)) = Some p"
    and req: "callAPI_request (id' (heap w ! p)) (config (heap w ! p)) env = Inr req"
    and reply: "client_Do env = Reply code body"
  shows "\<exists>w'. step (Tick p env) w = Inr w' \<and> goroutines w' ! p = Running \<and>
     ((schedulers w' (id' (heap w ! p)) = None) = (code = 200)) \<and>
     (code = 200 \<longrightarrow>
        stopChan (heap w' ! p) = Closed \<and> \<not> running (heap w' ! p) \<and>
        (\<exists>w''. step (StopSeen p) w' = Inr w'' \<and> goroutines w'' ! p = Terminated) \<and>
        (\<forall>c. schedulers (StartScheduler (id' (heap w ! p)) c w') (id' (heap w ! p))
                = Some (length (heap w')) \<and>
             config (heap (StartScheduler (id' (heap w ! p)) c w') ! length (heap w')) = c \<and>
             goroutines (StartScheduler (id' (heap w ! p)) c w') ! length (heap w') = Pending)) \<and>
     (code \<noteq> 200 \<longrightarrow> schedulers w' = schedulers w \<and> heap w' = heap w)"
proof -
  let ?i = "id' (heap w ! p)"
  let ?c = "config (heap w ! p)"
  let ?w1 = "logger_AddLog (CallStart ?i (APIURL ?c) (HTTPMethod ?c)) w"
  let ?w2 = "?w1\<lparr>sent := sent ?w1 @ [(p, req)]\<rparr>"
  let ?w3 = "logger_AddLog (ResponseBody ?i body) (logger_AddLog (CallStatus ?i code) ?w2)"
  let ?w4 = "logger_AddLog (AutoStopOn200 ?i) ?w3"
  note ok = reachable_ok(1) [OF reach]
  from l have p: "p < length (heap w)" and pg: "p < length (goroutines w)"
    by (simp_all add: live_def)
  have tick: "step (Tick p env) w = callAPI_send p req env ?w1"
    using l r req by (simp add: callAPI_def Let_def)
  show ?thesis
  proof (cases "code = 200")
    case False
    have "callAPI_send p req env ?w1 = Inr ?w3"
      using reply False by (simp add: callAPI_send_def Let_def)
    with tick have "step (Tick p env) w = Inr ?w3" by simp
    moreover have "goroutines ?w3 ! p = Running" "schedulers ?w3 = schedulers w"
      "heap ?w3 = heap w"
      using r by simp_all
    ultimately show ?thesis using False reg by (intro exI [of _ ?w3]) simp
  next
    case True
    let ?w' = "removed ?i p ?w4"
    have ok4: "registry_ok ?w4" using ok by simp
    have reg4: "schedulers ?w4 ?i = Some p" using reg by simp
    have "callAPI_send p req env ?w1 = StopScheduler ?i ?w4"
      using reply True by (simp add: callAPI_send_def Let_def)
    also have "\<dots> = Inr ?w'"
      using ok4 reg4 by (rule StopScheduler_present)
    finally have st: "step (Tick p env) w = Inr ?w'" using tick by simp
    have ok': "registry_ok ?w'" using ok4 reg4 by (rule registry_ok_removed)
    have g: "goroutines ?w' = goroutines w" by simp
    have none: "schedulers ?w' ?i = None" by simp
    have closed: "stopChan (heap ?w' ! p) = Closed" "\<not> running (heap ?w' ! p)"
      using p by (simp_all add: removed_closed)
    have len: "length (heap ?w') = length (heap w)" by simp
    have seen: "step (StopSeen p) ?w' =
        Inr (set_phase p Terminated (logger_AddLog (Stopped (id' (heap ?w' ! p))) ?w'))"
      using closed(1) p pg r len g by (simp add: live_def run_stopped_def Let_def)
    have fin: "goroutines (set_phase p Terminated
                 (logger_AddLog (Stopped (id' (heap ?w' ! p))) ?w')) ! p = Terminated"
      using pg by simp
    have start: "schedulers (StartScheduler ?i c ?w') ?i = Some (length (heap ?w')) \<and>
             config (heap (StartScheduler ?i c ?w') ! length (heap ?w')) = c \<and>
             goroutines (StartScheduler ?i c ?w') ! length (heap ?w') = Pending" for c
      using StartScheduler_absent [OF none registry_ok_length [OF ok'], of c] by simp
    have run: "goroutines ?w' ! p = Running" using r by simp
    have ended: "\<exists>w''. step (StopSeen p) ?w' = Inr w'' \<and> goroutines w'' ! p = Terminated"
      using seen fin by blast
    from st run none True closed ended start show ?thesis
      by (intro exI [of _ ?w']) blast
  qed
qed

lemma example_request:
  "callAPI_request ''a'' example_config (example_dispatch\<lparr>client_Do := x\<rparr>) =
     Inr \<lparr>Method = ''GET'', RequestURL = ''http://localhost:8080/fake-server?k=v'',
          Body = None, ContentType = None\<rparr>"
  by (simp add: callAPI_request_def example_config_def example_dispatch_def ToUpper_def
        upper_char_def Values_Encode_def shouldEscape_def URL_String_def Let_def)

lemma example_running:
  "\<exists>w. exec [Start ''a'' example_config, Begin 0 5 (Inr 7), TimerFired 0] (Init []) = Inr w \<and>
       live 0 w \<and> goroutines w ! 0 = Running \<and> schedulers w ''a'' = Some 0 \<and>
       id' (heap w ! 0) = ''a'' \<and> config (heap w ! 0) = example_config \<and> sent w = []"
  by (simp add: Init_def StartScheduler_def run_begin_parsed begun_def live_def Let_def
        run_start_def repeatInterval_def NewTicker_def Second_def example_config_def)

theorem auto_stop_iff_200_witness:
  "\<exists>w. exec [Start ''a'' example_config, Begin 0 5 (Inr 7), TimerFired 0] (Init []) = Inr w \<and>
       live 0 w \<and> goroutines w ! 0 = Running \<and> schedulers w (id' (heap w ! 0)) = Some 0 \<and>
       callAPI_request (id' (heap w ! 0)) (config (heap w ! 0)) example_dispatch =
         Inr \<lparr>Method = ''GET'', RequestURL = ''http://localhost:8080/fake-server?k=v'',
              Body = None, ContentType = None\<rparr> \<and>
       client_Do example_dispatch = Reply 200 [] \<and>
       (\<exists>w'. step (Tick 0 example_dispatch) w = Inr w' \<and> schedulers w' ''a'' = None \<and>
             stopChan (heap w' ! 0) = Closed) \<and>
       (\<exists>w'. step (Tick 0 (example_dispatch\<lparr>client_Do := Reply 404 []\<rparr>)) w = Inr w' \<and>
             schedulers w' = schedulers w)"
proof -
  let ?req = "\<lparr>Method = ''GET'', RequestURL = ''http://localhost:8080/fake-server?k=v'',
              Body = None, ContentType = None\<rparr>"
  from example_running obtain w
    where w: "exec [Start ''a'' example_config, Begin 0 5 (Inr 7), TimerFired 0] (Init []) = Inr w"
      "live 0 w" "goroutines w ! 0 = Running" "schedulers w ''a'' = Some 0"
      "id' (heap w ! 0) = ''a''" "config (heap w ! 0) = example_config"
    by blast
  have reg: "schedulers w (id' (heap w ! 0)) = Some 0" using w(4,5) by simp
  have r1: "callAPI_request (id' (heap w ! 0)) (config (heap w ! 0)) example_dispatch = Inr ?req"
    using example_request [of "client_Do example_dispatch"] w(5,6) by simp
  have r2: "callAPI_request (id' (heap w ! 0)) (config (heap w ! 0))
              (example_dispatch\<lparr>client_Do := Reply 404 []\<rparr>) = Inr ?req"
    using example_request [of "Reply 404 []"] w(5,6) by simp
  have c1: "client_Do example_dispatch = Reply 200 []" by (simp add: example_dispatch_def)
  have c2: "client_Do (example_dispatch\<lparr>client_Do := Reply 404 []\<rparr>) = Reply 404 []" by simp
  from auto_stop_iff_200 [OF w(1,2,3) reg r1 c1] w(5)
  have a: "\<exists>w'. step (Tick 0 example_dispatch) w = Inr w' \<and> schedulers w' ''a'' = None \<and>
             stopChan (heap w' ! 0) = Closed"
    by auto
  from auto_stop_iff_200 [OF w(1,2,3) reg r2 c2]
  have b: "\<exists>w'. step (Tick 0 (example_dispatch\<lparr>client_Do := Reply 404 []\<rparr>)) w = Inr w' \<and>
             schedulers w' = schedulers w"
    by auto
  from w(1,2,3) reg r1 c1 a b show ?thesis by blast
qed

text \<open>
  C7 as stated fails: for the payload \<^verbatim>\<open>{"a":"1","b":2}\<close> the decoder reports an error,
  and the request is sent with the parameters \<^verbatim>\<open>a=1&b=\<close>, not with none.
\<close>

theorem decode_failure_keeps_entries:
  "snd (unmarshal partial_decode) \<noteq> None \<and>
   callAPI_request ''a'' (example_config\<lparr>Payload := ''{\"a\":\"1\",\"b\":2}''\<rparr>) partial_decode =
     Inr \<lparr>Method = ''GET'', RequestURL = ''http://localhost:8080/fake-server?a=1&b='',
          Body = None, ContentType = None\<rparr> \<and>
   callAPI_request ''a'' (example_config\<lparr>Payload := ''{\"a\":\"1\",\"b\":2}''\<rparr>) partial_decode \<noteq>
     callAPI_request ''a'' (example_config\<lparr>Payload := ''{\"a\":\"1\",\"b\":2}''\<rparr>)
       (partial_decode\<lparr>unmarshal := ([], snd (unmarshal partial_decode))\<rparr>) \<and>
   requests_sent
     (exec [Start ''a'' (example_config\<lparr>Payload := ''{\"a\":\"1\",\"b\":2}''\<rparr>),
            Begin 0 5 (Inr 7), TimerFired 0, Tick 0 partial_decode] (Init [])) =
     [\<lparr>Method = ''GET'', RequestURL = ''http://localhost:8080/fake-server?a=1&b='',
       Body = None, ContentType = None\<rparr>]"
  by (simp add: partial_decode_def example_dispatch_def example_config_def requests_sent_def
        callAPI_request_def callAPI_def callAPI_send_def StopScheduler_def
        ToUpper_def upper_char_def Values_Encode_def shouldEscape_def URL_String_def
        Init_def StartScheduler_def run_begin_parsed begun_def live_def Let_def
        run_start_def repeatInterval_def NewTicker_def Second_def)

text \<open>
  C7, amended. The error of the decoder has no effect at all: a dispatch after a failed
  decode is the dispatch after a successful decode that left the same mapping, so a decode
  failure neither ends the job nor aborts the dispatch. When the decoder left the mapping
  empty, as it does for a blob that is not valid JSON, the request carries no parameter:
  an empty form body for POST, an empty query otherwise.
\<close>

theorem decode_error_dropped:
  "callAPI_request i c (env\<lparr>unmarshal := (m, Some err)\<rparr>) =
     callAPI_request i c (env\<lparr>unmarshal := (m, None)\<rparr>) \<and>
   callAPI p (env\<lparr>unmarshal := (m, Some err)\<rparr>) w = callAPI p (env\<lparr>unmarshal := (m, None)\<rparr>) w \<and>
   (ToUpper (HTTPMethod c) = ''POST'' \<and> NewRequest_error env = None \<longrightarrow>
      callAPI_request i c (env\<lparr>unmarshal := ([], Some err)\<rparr>) =
        Inr \<lparr>Method = ''POST'', RequestURL = APIURL c, Body = Some [],
             ContentType = Some ''application/x-www-form-urlencoded''\<rparr>) \<and>
   (ToUpper (HTTPMethod c) \<noteq> ''POST'' \<and> url_Parse env = Inr u \<and> NewRequest_error env = None \<longrightarrow>
      callAPI_request i c (env\<lparr>unmarshal := ([], Some err)\<rparr>) =
        Inr \<lparr>Method = ''GET'', RequestURL = URL_String (u\<lparr>RawQuery := []\<rparr>), Body = None,
             ContentType = None\<rparr>)"
proof -
  have enc: "Values_Encode [] = []" by (simp add: Values_Encode_def)
  have req: "callAPI_request i c (env\<lparr>unmarshal := (m, Some err)\<rparr>) =
     callAPI_request i c (env\<lparr>unmarshal := (m, None)\<rparr>)" for i c
    by (simp add: callAPI_request_def Let_def split: sum.splits option.splits)
  have send: "callAPI_send p r (env\<lparr>unmarshal := (m, Some err)\<rparr>) w1 =
     callAPI_send p r (env\<lparr>unmarshal := (m, None)\<rparr>) w1" for r w1
    by (simp add: callAPI_send_def)
  have call: "callAPI p (env\<lparr>unmarshal := (m, Some err)\<rparr>) w =
     callAPI p (env\<lparr>unmarshal := (m, None)\<rparr>) w"
    by (simp add: callAPI_def req send Let_def split: sum.splits)
  show ?thesis
    by (intro conjI impI req call) (simp_all add: callAPI_request_def enc Let_def)
qed

theorem decode_error_dropped_witness:
  "ToUpper (HTTPMethod example_config) \<noteq> ''POST'' \<and>
   ToUpper (HTTPMethod (example_config\<lparr>HTTPMethod := ''post''\<rparr>)) = ''POST'' \<and>
   NewRequest_error example_dispatch = None \<and>
   callAPI_request ''a'' example_config
       (example_dispatch\<lparr>unmarshal := ([], Some ''unexpected end of JSON input'')\<rparr>) =
     Inr \<lparr>Method = ''GET'', RequestURL = ''http://localhost:8080/fake-server'', Body = None,
          ContentType = None\<rparr> \<and>
   callAPI_request ''a'' (example_config\<lparr>HTTPMethod := ''post''\<rparr>)
       (example_dispatch\<lparr>unmarshal := ([], Some ''unexpected end of JSON input'')\<rparr>) =
     Inr \<lparr>Method = ''POST'', RequestURL = ''http://localhost:8080/fake-server'', Body = Some [],
          ContentType = Some ''application/x-www-form-urlencoded''\<rparr>"
proof -
  let ?u = "\<lparr>Location = ''http://localhost:8080/fake-server'', ForceQuery = False,
             RawQuery = [], EscapedFragment = []\<rparr>"
  let ?e = "''unexpected end of JSON input''"
  let ?post = "example_config\<lparr>HTTPMethod := ''post''\<rparr>"
  have c1: "ToUpper (HTTPMethod example_config) \<noteq> ''POST''"
    by (simp add: example_config_def ToUpper_def upper_char_def)
  have "ToUpper ''post'' = ''POST''"
    by code_simp
  then have c2: "ToUpper (HTTPMethod ?post) = ''POST''"
    by simp
  have c3: "NewRequest_error example_dispatch = None"
    and c4: "url_Parse example_dispatch = Inr ?u"
    by (simp_all add: example_dispatch_def)
  have url: "APIURL example_config = ''http://localhost:8080/fake-server''"
    by (simp add: example_config_def)
  have "callAPI_request ''a'' example_config (example_dispatch\<lparr>unmarshal := ([], Some ?e)\<rparr>) =
      Inr \<lparr>Method = ''GET'', RequestURL = URL_String (?u\<lparr>RawQuery := []\<rparr>), Body = None,
           ContentType = None\<rparr>"
    using decode_error_dropped [where i = "''a''" and c = example_config
          and env = example_dispatch and err = ?e and u = ?u] c1 c3 c4
    by blast
  then have g: "callAPI_request ''a'' example_config (example_dispatch\<lparr>unmarshal := ([], Some ?e)\<rparr>) =
      Inr \<lparr>Method = ''GET'', RequestURL = ''http://localhost:8080/fake-server'', Body = None,
           ContentType = None\<rparr>"
    by (simp add: URL_String_def)
  have "callAPI_request ''a'' ?post (example_dispatch\<lparr>unmarshal := ([], Some ?e)\<rparr>) =
      Inr \<lparr>Method = ''POST'', RequestURL = APIURL ?post, Body = Some [],
           ContentType = Some ''application/x-www-form-urlencoded''\<rparr>"
    using decode_error_dropped [where i = "''a''" and c = ?post
          and env = example_dispatch and err = ?e] c2 c3
    by blast
  then have h: "callAPI_request ''a'' ?post (example_dispatch\<lparr>unmarshal := ([], Some ?e)\<rparr>) =
      Inr \<lparr>Method = ''POST'', RequestURL = ''http://localhost:8080/fake-server'', Body = Some [],
           ContentType = Some ''application/x-www-form-urlencoded''\<rparr>"
    by (simp add: url)
  from c1 c2 c3 g h show ?thesis by blast
qed

text \<open>
  C8 as stated fails: when \<^verbatim>\<open>url.Parse\<close> rejects the configured URL, a dispatch whose
  method is not POST logs the error and sends no request.
\<close>

theorem unparsable_url_sends_nothing:
  "ToUpper (HTTPMethod (example_config\<lparr>APIURL := '':8080/fake-server''\<rparr>)) \<noteq> ''POST'' \<and>
   callAPI_request ''a'' (example_config\<lparr>APIURL := '':8080/fake-server''\<rparr>) parse_failure =
     Inl (URLParseError ''a'' ''parse \":8080/fake-server\": missing protocol scheme'') \<and>
   requests_sent
     (exec [Start ''a'' (example_config\<lparr>APIURL := '':8080/fake-server''\<rparr>),
            Begin 0 5 (Inr 7), TimerFired 0, Tick 0 parse_failure] (Init [])) = []"
  by (simp add: parse_failure_def example_dispatch_def example_config_def requests_sent_def
        callAPI_request_def callAPI_def
        ToUpper_def upper_char_def
        Init_def StartScheduler_def run_begin_parsed begun_def live_def Let_def
        run_start_def repeatInterval_def NewTicker_def Second_def)

text \<open>
  C8, amended. A dispatch of a scheduler in its ticker loop whose method, in upper case, is
  not POST: if the URL parses and the request can be created, exactly one request is sent,
  a GET without body whose URL is the parsed URL with the encoded mapping as its query;
  if the URL does not parse, or the request cannot be created, the error is logged, nothing
  is sent and the scheduler stays as it is.
\<close>

theorem non_post_dispatch:
  assumes reach: "exec es (Init t) = Inr w" and l: "live p w"
    and r: "goroutines w ! p = Running"
    and m: "ToUpper (HTTPMethod (config (heap w ! p))) \<noteq> ''POST''"
  shows
   "(\<forall>u. url_Parse env = Inr u \<and> NewRequest_error env = None \<longrightarrow>
       (\<exists>w'. step (Tick p env) w = Inr w' \<and>
          sent w' = sent w @
            [(p, \<lparr>Method = ''GET'',
                  RequestURL = URL_String (u\<lparr>RawQuery := Values_Encode
                      (foldl (\<lambda>f kv. Values_Add (fst kv) (snd kv) f) [] (fst (unmarshal env)))\<rparr>),
                  Body = None, ContentType = None\<rparr>)])) \<and>
    (\<forall>err. url_Parse env = Inl err \<longrightarrow>
       (\<exists>w'. step (Tick p env) w = Inr w' \<and> sent w' = sent w \<and>
          Message (last (logs w')) = URLParseError (id' (heap w ! p)) err \<and>
          goroutines w' = goroutines w \<and> schedulers w' = schedulers w)) \<and>
    (\<forall>u err. url_Parse env = Inr u \<and> NewRequest_error env = Some err \<longrightarrow>
       (\<exists>w'. step (Tick p env) w = Inr w' \<and> sent w' = sent w \<and>
          Message (last (logs w')) = RequestCreateError (id' (heap w ! p)) err \<and>
          goroutines w' = goroutines w \<and> schedulers w' = schedulers w))"
proof (intro conjI allI impI)
  note ok = reachable_ok(1) [OF reach] and un = reachable_ok(2) [OF reach]
  let ?i = "id' (heap w ! p)"
  let ?c = "config (heap w ! p)"
  let ?w1 = "logger_AddLog (CallStart ?i (APIURL ?c) (HTTPMethod ?c)) w"
  from l have p: "p < length (heap w)" by (simp add: live_def)
  have tick: "step (Tick p env) w = callAPI p env w" using l r by simp
  {
    fix u
    assume a: "url_Parse env = Inr u \<and> NewRequest_error env = None"
    let ?req = "\<lparr>Method = ''GET'',
                  RequestURL = URL_String (u\<lparr>RawQuery := Values_Encode
                      (foldl (\<lambda>f kv. Values_Add (fst kv) (snd kv) f) [] (fst (unmarshal env)))\<rparr>),
                  Body = None, ContentType = None\<rparr>"
    have rq: "callAPI_request ?i ?c env = Inr ?req"
      using a m by (simp add: callAPI_request_def Let_def)
    have "\<exists>w'. callAPI_send p ?req env ?w1 = Inr w' \<and> registry_ok w' \<and> units_ok w' \<and>
           goroutines w' = goroutines ?w1 \<and> sent w' = sent ?w1 @ [(p, ?req)] \<and>
           same_objects ?w1 w'"
      by (rule callAPI_send_ok) (use ok un p units_okD(1) [OF un p r] in simp_all)
    then obtain w' where "callAPI_send p ?req env ?w1 = Inr w'" and "sent w' = sent w @ [(p, ?req)]"
      by auto
    then show "\<exists>w'. step (Tick p env) w = Inr w' \<and> sent w' = sent w @ [(p, ?req)]"
      using tick rq by (simp add: callAPI_def Let_def)
  }
  {
    fix err
    assume a: "url_Parse env = Inl err"
    have rq: "callAPI_request ?i ?c env = Inl (URLParseError ?i err)"
      using a m by (simp add: callAPI_request_def Let_def)
    show "\<exists>w'. step (Tick p env) w = Inr w' \<and> sent w' = sent w \<and>
          Message (last (logs w')) = URLParseError ?i err \<and>
          goroutines w' = goroutines w \<and> schedulers w' = schedulers w"
      using tick rq by (simp add: callAPI_def Let_def)
  }
  {
    fix u err
    assume a: "url_Parse env = Inr u \<and> NewRequest_error env = Some err"
    have rq: "callAPI_request ?i ?c env = Inl (RequestCreateError ?i err)"
      using a m by (simp add: callAPI_request_def Let_def)
    show "\<exists>w'. step (Tick p env) w = Inr w' \<and> sent w' = sent w \<and>
          Message (last (logs w')) = RequestCreateError ?i err \<and>
          goroutines w' = goroutines w \<and> schedulers w' = schedulers w"
      using tick rq by (simp add: callAPI_def Let_def)
  }
qed

theorem non_post_dispatch_witness:
  "\<exists>w. exec [Start ''a'' example_config, Begin 0 5 (Inr 7), TimerFired 0] (Init []) = Inr w \<and>
       live 0 w \<and> goroutines w ! 0 = Running \<and>
       ToUpper (HTTPMethod (config (heap w ! 0))) \<noteq> ''POST'' \<and>
       (\<exists>w'. step (Tick 0 example_dispatch) w = Inr w' \<and>
          sent w' = [(0, \<lparr>Method = ''GET'',
                          RequestURL = ''http://localhost:8080/fake-server?k=v'',
                          Body = None, ContentType = None\<rparr>)]) \<and>
       (\<exists>w'. step (Tick 0 parse_failure) w = Inr w' \<and> sent w' = [])"
proof -
  from example_running obtain w
    where w: "exec [Start ''a'' example_config, Begin 0 5 (Inr 7), TimerFired 0] (Init []) = Inr w"
      "live 0 w" "goroutines w ! 0 = Running" "config (heap w ! 0) = example_config"
      "sent w = []"
    by blast
  have m: "ToUpper (HTTPMethod (config (heap w ! 0))) \<noteq> ''POST''"
    using w(4) by (simp add: example_config_def ToUpper_def upper_char_def)
  let ?u = "\<lparr>Location = ''http://localhost:8080/fake-server'', ForceQuery = False,
             RawQuery = [], EscapedFragment = []\<rparr>"
  note inst = non_post_dispatch [OF w(1,2,3) m]
  have pu: "url_Parse example_dispatch = Inr ?u \<and> NewRequest_error example_dispatch = None"
    by (simp add: example_dispatch_def)
  have enc: "URL_String (?u\<lparr>RawQuery := Values_Encode
      (foldl (\<lambda>f kv. Values_Add (fst kv) (snd kv) f) [] (fst (unmarshal example_dispatch)))\<rparr>)
      = ''http://localhost:8080/fake-server?k=v''"
    by (simp add: example_dispatch_def Values_Encode_def shouldEscape_def URL_String_def)
  from inst [of example_dispatch] pu obtain w1 where w1: "step (Tick 0 example_dispatch) w = Inr w1"
    "sent w1 = sent w @ [(0, \<lparr>Method = ''GET'',
        RequestURL = URL_String (?u\<lparr>RawQuery := Values_Encode
          (foldl (\<lambda>f kv. Values_Add (fst kv) (snd kv) f) [] (fst (unmarshal example_dispatch)))\<rparr>),
        Body = None, ContentType = None\<rparr>)]"
    by blast
  have "sent w1 = [(0, \<lparr>Method = ''GET'',
                          RequestURL = ''http://localhost:8080/fake-server?k=v'',
                          Body = None, ContentType = None\<rparr>)]"
    unfolding w1(2) enc w(5) by simp
  with w1(1) have a: "\<exists>w'. step (Tick 0 example_dispatch) w = Inr w' \<and>
          sent w' = [(0, \<lparr>Method = ''GET'',
                          RequestURL = ''http://localhost:8080/fake-server?k=v'',
                          Body = None, ContentType = None\<rparr>)]"
    by blast
  have pf: "url_Parse parse_failure = Inl ''parse \":8080/fake-server\": missing protocol scheme''"
    by (simp add: parse_failure_def example_dispatch_def)
  from inst [of parse_failure] pf obtain w2 where w2: "step (Tick 0 parse_failure) w = Inr w2"
    "sent w2 = sent w"
    by blast
  from w2(2) w(5) have "sent w2 = []" by simp
  with w2(1) have b: "\<exists>w'. step (Tick 0 parse_failure) w = Inr w' \<and> sent w' = []"
    by blast
  from w(1,2,3) m a b show ?thesis by blast
qed

end
